theory Spec2Isabelle
  imports Complex_Main "HOL-Library.Word" "HOL-Library.Log_Nat"
begin

unbundle bit_operations_syntax

section \<open>Machine types of the target (RP2040, ILP32, little endian)\<close>

text \<open>
  The firmware targets the RP2040 (Arduino core): \<open>long\<close> and \<open>unsigned long\<close> are
  32 bits wide, \<open>uint64_t\<close> is 64 bits wide and the byte order is little endian.
  A \<open>float\<close> is carried as its 32-bit IEEE-754 pattern: the calibration store only
  copies it, and all float arithmetic is done by the operations of a record \<open>fpu\<close>.
\<close>

type_synonym u8 = "8 word"
type_synonym u32 = "32 word"
type_synonym i32 = "32 word"
type_synonym u64 = "64 word"
type_synonym f32 = "32 word"

section \<open>Calibration record and CRC-32\<close>

record CalRecord =
  magic :: u32
  version :: u32
  slope :: f32
  tare :: i32
  crc :: u32

definition CAL_MAGIC :: u32 where
  "CAL_MAGIC = 0x43414C31"

definition CAL_VERSION :: u32 where
  "CAL_VERSION = 0x00010000"

text \<open>One pass of the bit loop of \<open>crc32_update\<close>:
  \<open>mask = -(crc & 1); crc = (crc >> 1) ^ (0xEDB88320 & mask)\<close>.\<close>

definition crc32_step :: "u32 \<Rightarrow> u32" where
  "crc32_step c = drop_bit 1 c XOR (0xEDB88320 AND (- (c AND 1)))"

definition crc32_update :: "u32 \<Rightarrow> u8 \<Rightarrow> u32" where
  "crc32_update c d = (crc32_step ^^ 8) (c XOR ucast d)"

definition crc32_span :: "u8 list \<Rightarrow> u32" where
  "crc32_span bs = NOT (foldl crc32_update 0xFFFFFFFF bs)"

subsection \<open>The record as bytes in memory\<close>

definition le32 :: "u32 \<Rightarrow> u8 list" where
  "le32 w = [ucast w, ucast (drop_bit 8 w), ucast (drop_bit 16 w), ucast (drop_bit 24 w)]"

definition from_le32 :: "u8 list \<Rightarrow> u32" where
  "from_le32 bs =
     ucast (bs ! 0) OR push_bit 8 (ucast (bs ! 1)) OR
     push_bit 16 (ucast (bs ! 2)) OR push_bit 24 (ucast (bs ! 3))"

text \<open>The first 16 bytes of the struct (magic, version, slope, tare): the span the
  CRC is computed over.\<close>

definition rec_head_bytes :: "CalRecord \<Rightarrow> u8 list" where
  "rec_head_bytes r = le32 (magic r) @ le32 (version r) @ le32 (slope r) @ le32 (tare r)"

definition rec_bytes :: "CalRecord \<Rightarrow> u8 list" where
  "rec_bytes r = rec_head_bytes r @ le32 (crc r)"

definition rec_of_bytes :: "u8 list \<Rightarrow> CalRecord" where
  "rec_of_bytes bs =
     \<lparr> magic = from_le32 (take 4 bs),
       version = from_le32 (take 4 (drop 4 bs)),
       slope = from_le32 (take 4 (drop 8 bs)),
       tare = from_le32 (take 4 (drop 12 bs)),
       crc = from_le32 (take 4 (drop 16 bs)) \<rparr>"

section \<open>EEPROM emulation\<close>

text \<open>
  The EEPROM driver keeps a RAM copy of a flash page: \<open>begin\<close> fills the copy from
  flash, \<open>put\<close> and \<open>get\<close> work on the copy, \<open>commit\<close> writes the copy to flash.
  Only \<open>flash\<close> survives a power cycle.
\<close>

record eeprom =
  flash :: "nat \<Rightarrow> u8"
  shadow :: "nat \<Rightarrow> u8"

definition EEPROM_begin :: "eeprom \<Rightarrow> eeprom" where
  "EEPROM_begin e = e\<lparr>shadow := flash e\<rparr>"

fun write_bytes :: "nat \<Rightarrow> u8 list \<Rightarrow> (nat \<Rightarrow> u8) \<Rightarrow> (nat \<Rightarrow> u8)" where
  "write_bytes a [] m = m"
| "write_bytes a (b # bs) m = write_bytes (Suc a) bs (m(a := b))"

definition read_bytes :: "nat \<Rightarrow> nat \<Rightarrow> (nat \<Rightarrow> u8) \<Rightarrow> u8 list" where
  "read_bytes a n m = map m [a ..< a + n]"

definition EEPROM_put :: "nat \<Rightarrow> CalRecord \<Rightarrow> eeprom \<Rightarrow> eeprom" where
  "EEPROM_put a r e = e\<lparr>shadow := write_bytes a (rec_bytes r) (shadow e)\<rparr>"

definition EEPROM_get :: "nat \<Rightarrow> eeprom \<Rightarrow> CalRecord" where
  "EEPROM_get a e = rec_of_bytes (read_bytes a 20 (shadow e))"

definition EEPROM_commit :: "eeprom \<Rightarrow> eeprom" where
  "EEPROM_commit e = e\<lparr>flash := shadow e\<rparr>"

section \<open>Global state of the firmware\<close>

text \<open>
  The globals of \<open>main.cpp\<close>, the EEPROM driver object and the static line buffer of
  \<open>loop\<close>. The buffer is kept as the characters stored so far, so \<open>idx\<close> is its length.
\<close>

record state =
  g_per_count :: f32
  tare_offset :: i32
  PULSES_PER_REV :: u32
  tach_pulses_total :: u32
  last_edge_us :: u32
  last_period_us :: u32
  epoch_base_ms :: u64
  EEPROM :: eeprom
  linebuf :: string

text \<open>The float literal \<open>0.0020f\<close> as an IEEE-754 single.\<close>

definition DEFAULT_SLOPE :: f32 where
  "DEFAULT_SLOPE = 0x3B03126F"

section \<open>Calibration persistence\<close>

definition saveCalibrationToEEPROM :: "f32 \<Rightarrow> i32 \<Rightarrow> state \<Rightarrow> state" where
  "saveCalibrationToEEPROM sl ta s =
     (let rec0 = \<lparr> magic = CAL_MAGIC, version = CAL_VERSION, slope = sl, tare = ta, crc = 0 \<rparr>;
          rec = rec0\<lparr>crc := crc32_span (rec_head_bytes rec0)\<rparr>
      in s\<lparr>EEPROM := EEPROM_commit (EEPROM_put 0 rec (EEPROM_begin (EEPROM s)))\<rparr>)"

text \<open>
  \<open>loadCalibrationFromEEPROM(float &slope, long &tare)\<close>: the arguments \<open>sl\<close> and \<open>ta\<close>
  are what the caller's two variables hold before the call; the result gives the
  returned flag, what they hold after the call, and the state.
\<close>

definition loadCalibrationFromEEPROM :: "f32 \<Rightarrow> i32 \<Rightarrow> state \<Rightarrow> bool \<times> f32 \<times> i32 \<times> state" where
  "loadCalibrationFromEEPROM sl ta s =
     (let e = EEPROM_begin (EEPROM s);
          rec = EEPROM_get 0 e;
          s' = s\<lparr>EEPROM := e\<rparr>
      in if magic rec \<noteq> CAL_MAGIC \<or> version rec \<noteq> CAL_VERSION then (False, sl, ta, s')
         else if crc32_span (rec_head_bytes rec) \<noteq> crc rec then (False, sl, ta, s')
         else (True, slope rec, tare rec, s'))"

definition resetCalibrationToDefaultsAndPersist :: "state \<Rightarrow> state" where
  "resetCalibrationToDefaultsAndPersist s =
     saveCalibrationToEEPROM DEFAULT_SLOPE 0 (s\<lparr>g_per_count := DEFAULT_SLOPE, tare_offset := 0\<rparr>)"

section \<open>Tachometer\<close>

text \<open>\<open>tach_isr\<close>; \<open>now\<close> is the value \<open>micros()\<close> returns.\<close>

definition tach_isr :: "u32 \<Rightarrow> state \<Rightarrow> state" where
  "tach_isr now s =
     (let prev = last_edge_us s;
          s1 = s\<lparr>last_edge_us := now, tach_pulses_total := tach_pulses_total s + 1\<rparr>
      in if prev \<noteq> 0
         then (let dt = now - prev
               in if 100 < dt then s1\<lparr>last_period_us := dt\<rparr> else s1)
         else s1)"

section \<open>Float arithmetic, devices and serial output\<close>

text \<open>
  Single-precision arithmetic is a parameter: \<open>f_of_u32\<close> and \<open>f_of_long\<close> are the
  conversions \<open>(float)x\<close>, \<open>f_div\<close> and \<open>f_mul\<close> the operators, \<open>f_le\<close> the
  comparison \<open>\<le>\<close>, and \<open>f_strtod\<close> the value \<open>(float)strtod(s)\<close> of a string that starts
  with a number.
\<close>

record fpu =
  f_of_u32 :: "u32 \<Rightarrow> f32"
  f_of_long :: "i32 \<Rightarrow> f32"
  f_div :: "f32 \<Rightarrow> f32 \<Rightarrow> f32"
  f_mul :: "f32 \<Rightarrow> f32 \<Rightarrow> f32"
  f_le :: "f32 \<Rightarrow> f32 \<Rightarrow> bool"
  f_strtod :: "string \<Rightarrow> f32"

definition F_0 :: f32 where "F_0 = 0"
definition F_1 :: f32 where "F_1 = 0x3F800000"
definition F_60 :: f32 where "F_60 = 0x42700000"
definition F_1000 :: f32 where "F_1000 = 0x447A0000"
definition F_1e6 :: f32 where "F_1e6 = 0x49742400"

text \<open>
  What the devices deliver while one command runs: \<open>hx_read_blocking\<close> polls the
  HX711 driver against the millisecond clock and ends with a raw count or with a
  timeout (\<open>None\<close>); \<open>millis\<close> is the value \<open>millis()\<close> returns.
\<close>

record env =
  hx_read_blocking :: "i32 option"
  millis :: u32

text \<open>Serial output is the sequence of \<open>Serial.print\<close> calls: a string, a float with
  its number of decimals, or an integer.\<close>

datatype out = Str string | Flt f32 nat | Long i32 | ULong u32 | ULongLong u64

definition CRLF :: string where
  "CRLF = [CHR 0x0D, CHR 0x0A]"

definition FW_VENDOR :: string where "FW_VENDOR = ''ForecverBearing''"
definition FW_DEVICE :: string where "FW_DEVICE = ''RP2040''"
definition FW_VERSION :: string where "FW_VERSION = ''1.0.1''"

definition now_unix_ms :: "env \<Rightarrow> state \<Rightarrow> u64" where
  "now_unix_ms ev s = epoch_base_ms s + ucast (millis ev)"

definition us_to_ms :: "fpu \<Rightarrow> u32 \<Rightarrow> f32" where
  "us_to_ms fp us = f_div fp (f_of_u32 fp us) F_1000"

record TachSnapshot =
  pulses_total :: u32
  snap_last_period_us :: u32

definition tach_snapshot :: "state \<Rightarrow> TachSnapshot" where
  "tach_snapshot s = \<lparr> pulses_total = tach_pulses_total s, snap_last_period_us = last_period_us s \<rparr>"

text \<open>\<open>compute_rpm\<close> reads the global \<open>PULSES_PER_REV\<close>; it is the argument \<open>ppr\<close> here.\<close>

definition compute_rpm :: "fpu \<Rightarrow> TachSnapshot \<Rightarrow> u32 \<Rightarrow> f32" where
  "compute_rpm fp sn ppr =
     (if snap_last_period_us sn = 0 \<or> ppr = 0 then F_0
      else (let period_s = f_div fp (f_of_u32 fp (snap_last_period_us sn)) F_1e6
            in if f_le fp period_s F_0 then F_0
               else (let rps = f_div fp (f_div fp F_1 period_s) (f_of_u32 fp ppr)
                     in f_mul fp F_60 rps)))"

section \<open>C library: tokens and numbers\<close>

text \<open>
  \<open>strtok(s, delims)\<close> on a NUL-free string: \<open>None\<close> when only delimiters are left,
  else the token and the rest of the string behind the delimiter that ended it, which
  is where \<open>strtok(nullptr, ...)\<close> goes on.
\<close>

definition strtok :: "string \<Rightarrow> string \<Rightarrow> (string \<times> string) option" where
  "strtok s delims =
     (let s1 = dropWhile (\<lambda>c. c \<in> set delims) s
      in if s1 = [] then None
         else Some (takeWhile (\<lambda>c. c \<notin> set delims) s1,
                    drop 1 (dropWhile (\<lambda>c. c \<notin> set delims) s1)))"

definition WS :: string where
  "WS = [CHR '' '', CHR 0x09]"

definition isspace :: "char \<Rightarrow> bool" where
  "isspace c = (c \<in> set [CHR '' '', CHR 0x09, CHR 0x0A, CHR 0x0B, CHR 0x0C, CHR 0x0D])"

definition isdigit :: "char \<Rightarrow> bool" where
  "isdigit c = (48 \<le> (of_char c :: nat) \<and> (of_char c :: nat) \<le> 57)"

definition dec_value :: "string \<Rightarrow> nat" where
  "dec_value ds = foldl (\<lambda>a c. 10 * a + (of_char c - 48)) 0 ds"

text \<open>The common start of \<open>strtoul\<close>, \<open>strtoull\<close> and \<open>strtol\<close> in base 10: white
  space, an optional sign, the longest run of digits.\<close>

definition scan_int :: "string \<Rightarrow> bool \<times> string" where
  "scan_int s =
     (let s1 = dropWhile isspace s;
          neg = (s1 \<noteq> [] \<and> hd s1 = CHR ''-'');
          s2 = (if s1 \<noteq> [] \<and> (hd s1 = CHR ''-'' \<or> hd s1 = CHR ''+'') then tl s1 else s1)
      in (neg, takeWhile isdigit s2))"

text \<open>No digits: 0. Out of range: the largest value. A minus sign negates in the
  unsigned type.\<close>

definition strtou :: "nat \<Rightarrow> string \<Rightarrow> nat" where
  "strtou bits s =
     (case scan_int s of (neg, ds) \<Rightarrow>
        if ds = [] then 0
        else if 2 ^ bits - 1 < dec_value ds then 2 ^ bits - 1
        else if neg then (2 ^ bits - dec_value ds) mod 2 ^ bits
        else dec_value ds)"

definition strtoul :: "string \<Rightarrow> u32" where
  "strtoul s = of_nat (strtou 32 s)"

definition strtoull :: "string \<Rightarrow> u64" where
  "strtoull s = of_nat (strtou 64 s)"

text \<open>\<open>atol\<close> is \<open>strtol(s, NULL, 10)\<close>, which saturates at \<open>LONG_MIN\<close> and \<open>LONG_MAX\<close>.\<close>

definition atol :: "string \<Rightarrow> i32" where
  "atol s =
     (case scan_int s of (neg, ds) \<Rightarrow>
        if ds = [] then 0
        else if neg then (if 2 ^ 31 \<le> dec_value ds then 0x80000000 else - of_nat (dec_value ds))
        else (if 2 ^ 31 \<le> dec_value ds then 0x7FFFFFFF else of_nat (dec_value ds)))"

definition toupper_az :: "char \<Rightarrow> char" where
  "toupper_az c =
     (if 97 \<le> (of_char c :: nat) \<and> (of_char c :: nat) \<le> 122
      then char_of ((of_char c :: nat) - 32) else c)"

text \<open>
  Whether \<open>strtod\<close> finds a number at the start of \<open>s\<close>: after white space and an
  optional sign come a digit, a point followed by a digit, or INF or NAN in any case.
  Without one no conversion is performed and \<open>atof\<close> returns zero.
\<close>

definition has_number :: "string \<Rightarrow> bool" where
  "has_number s =
     (let s1 = dropWhile isspace s;
          s2 = (if s1 \<noteq> [] \<and> (hd s1 = CHR ''-'' \<or> hd s1 = CHR ''+'') then tl s1 else s1)
      in (s2 \<noteq> [] \<and> isdigit (hd s2))
         \<or> (2 \<le> length s2 \<and> hd s2 = CHR ''.'' \<and> isdigit (s2 ! 1))
         \<or> map toupper_az (take 3 s2) = ''INF''
         \<or> map toupper_az (take 3 s2) = ''NAN'')"

definition atof :: "fpu \<Rightarrow> string \<Rightarrow> f32" where
  "atof fp s = (if has_number s then f_strtod fp s else F_0)"

fun streqi :: "string \<Rightarrow> string \<Rightarrow> bool" where
  "streqi (a # as) (b # bs) = (if toupper_az a \<noteq> toupper_az b then False else streqi as bs)"
| "streqi as bs = (as = [] \<and> bs = [])"

section \<open>Commands\<close>

text \<open>Each handler returns what it prints and the state it leaves.\<close>

definition cmd_ping :: "state \<Rightarrow> out list \<times> state" where
  "cmd_ping s = ([Str (''OK PONG'' @ CRLF)], s)"

definition cmd_info :: "state \<Rightarrow> out list \<times> state" where
  "cmd_info s =
     ([Str ''OK INFO '', Str ''vendor='', Str FW_VENDOR, Str '' device='', Str FW_DEVICE,
       Str '' fw='', Str FW_VERSION, Str CRLF], s)"

definition cmd_load :: "fpu \<Rightarrow> env \<Rightarrow> state \<Rightarrow> out list \<times> state" where
  "cmd_load fp ev s =
     (case hx_read_blocking ev of
        None \<Rightarrow> ([Str (''ERR 20 HX711_timeout'' @ CRLF)], s)
      | Some raw \<Rightarrow>
          (let mass_g = f_mul fp (f_of_long fp (raw - tare_offset s)) (g_per_count s);
               ts = now_unix_ms ev s
           in ([Str ''OK LOAD '', Str ''mass_g='', Flt mass_g 3, Str '' raw='', Long raw,
                Str '' ts='', ULongLong ts, Str CRLF], s)))"

definition cmd_tare :: "env \<Rightarrow> state \<Rightarrow> out list \<times> state" where
  "cmd_tare ev s =
     (case hx_read_blocking ev of
        None \<Rightarrow> ([Str (''ERR 20 HX711_timeout'' @ CRLF)], s)
      | Some raw \<Rightarrow>
          (let s1 = s\<lparr>tare_offset := raw\<rparr>;
               sl = g_per_count s1
           in ([Str (''OK TARE'' @ CRLF)], saveCalibrationToEEPROM sl raw s1)))"

definition cmd_speed :: "fpu \<Rightarrow> env \<Rightarrow> state \<Rightarrow> out list \<times> state" where
  "cmd_speed fp ev s =
     (let sn = tach_snapshot s;
          rpm = compute_rpm fp sn (PULSES_PER_REV s);
          period_ms = (if snap_last_period_us sn = 0 then F_0
                       else us_to_ms fp (snap_last_period_us sn));
          ts = now_unix_ms ev s
      in ([Str ''OK SPEED '', Str ''rpm='', Flt rpm 2, Str '' period_ms='', Flt period_ms 3,
           Str '' pulses='', ULong (pulses_total sn), Str '' ts='', ULongLong ts, Str CRLF], s))"

definition cmd_settime :: "env \<Rightarrow> string \<Rightarrow> state \<Rightarrow> out list \<times> state" where
  "cmd_settime ev args s =
     (case strtok args WS of
        None \<Rightarrow> ([Str (''ERR 30 missing_unix_ms'' @ CRLF)], s)
      | Some (tok, rest) \<Rightarrow>
          (let v = strtoull tok
           in ([Str (''OK SETTIME'' @ CRLF)], s\<lparr>epoch_base_ms := v - ucast (millis ev)\<rparr>)))"

text \<open>Both \<open>strtok\<close> calls of \<open>cmd_setcal\<close> run before the test; after a first call
  that found no token the second one starts at the end of the string.\<close>

definition cmd_setcal :: "fpu \<Rightarrow> string \<Rightarrow> state \<Rightarrow> out list \<times> state" where
  "cmd_setcal fp args s =
     (let a = strtok args WS;
          b = (case a of None \<Rightarrow> strtok [] WS | Some (ta, rest) \<Rightarrow> strtok rest WS)
      in case (a, b) of
           (Some (ta, ra), Some (tb, rb)) \<Rightarrow>
             (let sl = atof fp ta;
                  tr = atol tb;
                  s1 = s\<lparr>g_per_count := sl, tare_offset := tr\<rparr>
              in ([Str (''OK SETCAL'' @ CRLF)], saveCalibrationToEEPROM sl tr s1))
         | _ \<Rightarrow> ([Str (''ERR 31 missing_args'' @ CRLF)], s))"

definition cmd_calq :: "state \<Rightarrow> out list \<times> state" where
  "cmd_calq s =
     ([Str ''OK CAL '', Str ''slope='', Flt (g_per_count s) 9, Str '' tare='',
       Long (tare_offset s), Str CRLF], s)"

definition cmd_resetcal :: "state \<Rightarrow> out list \<times> state" where
  "cmd_resetcal s = ([Str (''OK RESETCAL'' @ CRLF)], resetCalibrationToDefaultsAndPersist s)"

definition cmd_setppr :: "string \<Rightarrow> state \<Rightarrow> out list \<times> state" where
  "cmd_setppr args s =
     (case strtok args WS of
        None \<Rightarrow> ([Str (''ERR 32 missing_ppr'' @ CRLF)], s)
      | Some (a, rest) \<Rightarrow>
          (let ppr = strtoul a
           in if ppr = 0 then ([Str (''ERR 33 invalid_ppr'' @ CRLF)], s)
              else ([Str (''OK SETPPR'' @ CRLF)], s\<lparr>PULSES_PER_REV := ppr\<rparr>)))"

definition cmd_pprq :: "state \<Rightarrow> out list \<times> state" where
  "cmd_pprq s = ([Str ''OK PPR '', Str ''ppr='', ULong (PULSES_PER_REV s), Str CRLF], s)"

section \<open>Parser\<close>

text \<open>
  \<open>handle_line\<close> gets the line as a C string. The command is the first token; the
  arguments are all that follows the delimiter behind it (\<open>strtok(nullptr, "")\<close>), the
  empty string when nothing follows. The line starts with a character that is no
  delimiter when the command is taken, so that \<open>strtok\<close> finds a token.
\<close>

definition handle_line :: "fpu \<Rightarrow> env \<Rightarrow> string \<Rightarrow> state \<Rightarrow> out list \<times> state" where
  "handle_line fp ev line s =
     (let l1 = rev (dropWhile (\<lambda>c. c = CHR 0x0D \<or> c = CHR 0x0A) (rev line));
          l2 = dropWhile (\<lambda>c. c = CHR '' '' \<or> c = CHR 0x09) l1
      in if l2 = [] then ([], s)
         else (case strtok l2 WS of
                 None \<Rightarrow> ([], s)
               | Some (cmd, args) \<Rightarrow>
                   if streqi cmd ''PING'' then cmd_ping s
                   else if streqi cmd ''INFO'' then cmd_info s
                   else if streqi cmd ''LOAD?'' then cmd_load fp ev s
                   else if streqi cmd ''TARE'' then cmd_tare ev s
                   else if streqi cmd ''SPEED?'' then cmd_speed fp ev s
                   else if streqi cmd ''SETTIME'' then cmd_settime ev args s
                   else if streqi cmd ''SETCAL'' then cmd_setcal fp args s
                   else if streqi cmd ''CAL?'' then cmd_calq s
                   else if streqi cmd ''RESETCAL'' then cmd_resetcal s
                   else if streqi cmd ''SETPPR'' then cmd_setppr args s
                   else if streqi cmd ''PPR?'' then cmd_pprq s
                   else ([Str (''ERR 10 unknown_command'' @ CRLF)], s)))"

section \<open>Setup and loop\<close>


text \<open>The state after power-on, before \<open>setup()\<close> runs: the initialisers of the globals,
  with the flash contents \<open>fl\<close> that survived.\<close>

definition power_on :: "(nat \<Rightarrow> u8) \<Rightarrow> state" where
  "power_on fl =
     \<lparr> g_per_count = DEFAULT_SLOPE, tare_offset = 0, PULSES_PER_REV = 1,
       tach_pulses_total = 0, last_edge_us = 0, last_period_us = 0, epoch_base_ms = 0,
       EEPROM = \<lparr> flash = fl, shadow = (\<lambda>a. 0) \<rparr>, linebuf = [] \<rparr>"

text \<open>
  One pass of the \<open>while\<close> loop of \<open>loop\<close> for the byte \<open>c\<close>. \<open>handle_line\<close> reads
  the buffer as a C string, up to the first NUL byte.
\<close>

definition loop_byte :: "fpu \<Rightarrow> env \<Rightarrow> char \<Rightarrow> state \<Rightarrow> out list \<times> state" where
  "loop_byte fp ev c s =
     (if c = CHR 0x0D then ([], s)
      else if c = CHR 0x0A then
        (case handle_line fp ev (takeWhile (\<lambda>x. x \<noteq> CHR 0x00) (linebuf s)) s of
           (os, s1) \<Rightarrow> (os, s1\<lparr>linebuf := []\<rparr>))
      else if length (linebuf s) < 127 then ([], s\<lparr>linebuf := linebuf s @ [c]\<rparr>)
      else ([Str (''ERR 11 line_too_long'' @ CRLF)], s\<lparr>linebuf := []\<rparr>))"

text \<open>\<open>loop\<close> on the bytes that are available.\<close>

fun loop :: "fpu \<Rightarrow> env \<Rightarrow> string \<Rightarrow> state \<Rightarrow> out list \<times> state" where
  "loop fp ev [] s = ([], s)"
| "loop fp ev (c # cs) s =
     (case loop_byte fp ev c s of
        (os, s1) \<Rightarrow> (case loop fp ev cs s1 of (os', s2) \<Rightarrow> (os @ os', s2)))"

section \<open>IEEE-754 single precision\<close>

text \<open>
  The float arithmetic of the target, on bit patterns: sign bit, 8 bits of biased
  exponent, 23 bits of fraction. Results are rounded to nearest, ties to even. The
  values are rationals; \<open>f32_mag\<close> gives \<open>2^128\<close> for the pattern of infinity.
\<close>

text \<open>The floor of the binary logarithm of a positive rational.\<close>

definition ilog2 :: "rat \<Rightarrow> int" where
  "ilog2 x = (case quotient_of x of (n, d) \<Rightarrow>
      let k = bitlen n - bitlen d in if power_int 2 k \<le> x then k else k - 1)"

text \<open>Rounding to the nearest integer, ties to even.\<close>

definition rne :: "rat \<Rightarrow> int" where
  "rne x = (let f = \<lfloor>x\<rfloor>; r = x - of_int f in
      if r < 1/2 then f else if 1/2 < r then f + 1 else if even f then f else f + 1)"

text \<open>The pattern of a rational \<open>x \<ge> 0\<close> rounded to single precision: subnormal below
  \<open>2^-126\<close>, infinity from the overflow threshold on.\<close>

definition round_pos :: "rat \<Rightarrow> f32" where
  "round_pos x =
     (if x = 0 then 0
      else (let e = max (ilog2 x) (- 126);
                n = rne (x * power_int 2 (23 - e));
                b = (e + 126) * 2 ^ 23 + n
            in if 255 * 2 ^ 23 \<le> b then 0x7F800000 else word_of_int b))"

definition f32_exp :: "f32 \<Rightarrow> int" where
  "f32_exp w = (uint w div 2 ^ 23) mod 256"

definition f32_frac :: "f32 \<Rightarrow> int" where
  "f32_frac w = uint w mod 2 ^ 23"

definition f32_neg :: "f32 \<Rightarrow> bool" where
  "f32_neg w = (2 ^ 31 \<le> uint w)"

definition f32_mag :: "f32 \<Rightarrow> rat" where
  "f32_mag w =
     (if f32_exp w = 0 then of_int (f32_frac w) * power_int 2 (- 149)
      else of_int (2 ^ 23 + f32_frac w) * power_int 2 (f32_exp w - 150))"

definition valof :: "f32 \<Rightarrow> rat" where
  "valof w = (if f32_neg w then - f32_mag w else f32_mag w)"

text \<open>Positive, normal and finite.\<close>

definition posnorm :: "f32 \<Rightarrow> bool" where
  "posnorm w = (2 ^ 23 \<le> uint w \<and> uint w < 255 * 2 ^ 23)"

definition F_NAN :: f32 where "F_NAN = 0x7FC00000"
definition F_INF :: f32 where "F_INF = 0x7F800000"

definition is_nan :: "f32 \<Rightarrow> bool" where
  "is_nan w = (f32_exp w = 255 \<and> f32_frac w \<noteq> 0)"

definition is_inf :: "f32 \<Rightarrow> bool" where
  "is_inf w = (f32_exp w = 255 \<and> f32_frac w = 0)"

definition with_sign :: "bool \<Rightarrow> f32 \<Rightarrow> f32" where
  "with_sign neg w = (if neg then w OR 0x80000000 else w)"

definition ieee_div :: "f32 \<Rightarrow> f32 \<Rightarrow> f32" where
  "ieee_div a b =
     (let sg = (f32_neg a \<noteq> f32_neg b)
      in if is_nan a \<or> is_nan b then F_NAN
         else if is_inf a then (if is_inf b then F_NAN else with_sign sg F_INF)
         else if is_inf b then with_sign sg 0
         else if f32_mag b = 0 then (if f32_mag a = 0 then F_NAN else with_sign sg F_INF)
         else with_sign sg (round_pos (f32_mag a / f32_mag b)))"

definition ieee_mul :: "f32 \<Rightarrow> f32 \<Rightarrow> f32" where
  "ieee_mul a b =
     (let sg = (f32_neg a \<noteq> f32_neg b)
      in if is_nan a \<or> is_nan b then F_NAN
         else if is_inf a \<or> is_inf b
           then (if f32_mag a = 0 \<or> f32_mag b = 0 then F_NAN else with_sign sg F_INF)
         else with_sign sg (round_pos (f32_mag a * f32_mag b)))"

definition ieee_le :: "f32 \<Rightarrow> f32 \<Rightarrow> bool" where
  "ieee_le a b = (\<not> is_nan a \<and> \<not> is_nan b \<and> valof a \<le> valof b)"

definition ieee_of_u32 :: "u32 \<Rightarrow> f32" where
  "ieee_of_u32 u = round_pos (of_nat (unat u))"

definition ieee_of_long :: "i32 \<Rightarrow> f32" where
  "ieee_of_long i = with_sign (sint i < 0) (round_pos (of_int \<bar>sint i\<bar>))"

text \<open>The arithmetic of the target as an \<open>fpu\<close>; the conversion of decimal strings
  stays a parameter.\<close>

definition ieee_single :: "(string \<Rightarrow> f32) \<Rightarrow> fpu" where
  "ieee_single parse =
     \<lparr> f_of_u32 = ieee_of_u32, f_of_long = ieee_of_long, f_div = ieee_div, f_mul = ieee_mul,
       f_le = ieee_le, f_strtod = parse \<rparr>"

text \<open>\<open>close k x y\<close>: the positive numbers \<open>x\<close> and \<open>y\<close> differ by at most the factor
  \<open>(1 + 2^-24)^k\<close>, the accumulated error of \<open>k\<close> roundings.\<close>

definition close :: "nat \<Rightarrow> rat \<Rightarrow> rat \<Rightarrow> bool" where
  "close k x y =
     (0 < x \<and> 0 < y \<and> y \<le> x * (16777217 / 16777216) ^ k \<and> x \<le> y * (16777217 / 16777216) ^ k)"

section \<open>Auxiliary notions for the statements\<close>

text \<open>The record \<open>saveCalibrationToEEPROM\<close> builds for a slope and a tare.\<close>

definition saved_record :: "f32 \<Rightarrow> i32 \<Rightarrow> CalRecord" where
  "saved_record sl ta =
     \<lparr> magic = CAL_MAGIC, version = CAL_VERSION, slope = sl, tare = ta,
       crc = crc32_span (le32 CAL_MAGIC @ le32 CAL_VERSION @ le32 sl @ le32 ta) \<rparr>"

text \<open>Byte \<open>i\<close> of the flash page replaced by \<open>b\<close>.\<close>

definition flip_flash_byte :: "nat \<Rightarrow> u8 \<Rightarrow> state \<Rightarrow> state" where
  "flip_flash_byte i b s = s\<lparr>EEPROM := (EEPROM s)\<lparr>flash := (flash (EEPROM s))(i := b)\<rparr>\<rparr>"

text \<open>Power off and on again: only the flash contents are kept.\<close>

definition power_cycle :: "state \<Rightarrow> state" where
  "power_cycle s = power_on (flash (EEPROM s))"


text \<open>A byte that \<open>loop\<close> stores: neither carriage return nor line feed.\<close>

definition plain :: "char \<Rightarrow> bool" where
  "plain c = (c \<noteq> CHR 0x0D \<and> c \<noteq> CHR 0x0A)"

section \<open>Tachometer edges\<close>

lemma unat_sub_wrap32: "unat ((a::u32) - b) = (unat a + 2 ^ 32 - unat b) mod 2 ^ 32"
proof -
  have "unat b < 2 ^ 32" using unsigned_less [of b] by simp
  then have "int (unat a + 2 ^ 32 - unat b) = int (unat a) - int (unat b) + 2 ^ 32" by simp
  then have "int ((unat a + 2 ^ 32 - unat b) mod 2 ^ 32) = (int (unat a) - int (unat b)) mod 2 ^ 32"
    by (simp add: zmod_int)
  moreover have "int (unat (a - b)) = (int (unat a) - int (unat b)) mod 2 ^ 32"
    by (simp add: uint_word_ariths unsigned_of_int take_bit_eq_mod)
  ultimately show ?thesis by (metis of_nat_eq_iff)
qed

text \<open>
  C5. Every call of the edge handler increments the pulse count and stores the new
  timestamp. The period becomes \<open>dt = now - prev\<close>, taken modulo \<open>2^32\<close>, exactly when
  the previous edge time is not zero and \<open>dt\<close> is above 100; otherwise it keeps its
  value. An edge 50 units after another leaves the period as it was; an edge 150 units
  after one with a nonzero timestamp sets it to 150.
\<close>

theorem tach_isr_edge:
  "tach_pulses_total (tach_isr now s) = tach_pulses_total s + 1 \<and>
   last_edge_us (tach_isr now s) = now \<and>
   last_period_us (tach_isr now s) =
     (if last_edge_us s \<noteq> 0 \<and> 100 < now - last_edge_us s
      then now - last_edge_us s else last_period_us s) \<and>
   unat (now - last_edge_us s) = (unat now + 2 ^ 32 - unat (last_edge_us s)) mod 2 ^ 32 \<and>
   last_period_us (tach_isr (t + 50) (tach_isr t s)) = last_period_us (tach_isr t s) \<and>
   (t \<noteq> 0 \<longrightarrow> last_period_us (tach_isr (t + 150) (tach_isr t s)) = 150)"
  by (simp add: tach_isr_def Let_def unat_sub_wrap32)

theorem tach_isr_edge_witness:
  "last_period_us (tach_isr 1150 (tach_isr 1000 (power_on (\<lambda>a. 0)))) = 150 \<and>
   last_period_us (tach_isr 1050 (tach_isr 1000 (power_on (\<lambda>a. 0)))) = 0 \<and>
   tach_pulses_total (tach_isr 1000 (power_on (\<lambda>a. 0))) = 1 \<and>
   last_period_us (tach_isr 80 ((power_on (\<lambda>a. 0))\<lparr>last_edge_us := 0xFFFFFF00\<rparr>)) = 336"
  using tach_isr_edge [of 1000 "power_on (\<lambda>a. 0)" 1000]
    tach_isr_edge [of 80 "(power_on (\<lambda>a. 0))\<lparr>last_edge_us := 0xFFFFFF00\<rparr>" 1000]
  by (simp add: power_on_def)

section \<open>Bytes of the record\<close>

lemma from_le32_le32: "from_le32 (le32 w) = w"
proof (rule bit_word_eqI)
  fix n assume "n < LENGTH(32)"
  then have n: "n < 32" by simp
  consider "n < 8" | "8 \<le> n" "n < 16" | "16 \<le> n" "n < 24" | "24 \<le> n" "n < 32"
    using n by linarith
  then show "bit (from_le32 (le32 w)) n = bit w n"
    by cases (auto simp add: from_le32_def le32_def bit_simps)
qed

lemma list4: "length bs = 4 \<Longrightarrow> \<exists>a b c d. bs = [a, b, c, d]"
  by (cases bs; simp; cases "tl bs"; simp; cases "tl (tl bs)"; simp; cases "tl (tl (tl bs))"; simp)

lemma le32_from_le32_aux: "le32 (from_le32 [a, b, c, d]) = [a, b, c, d]"
proof -
  have 1: "ucast (from_le32 [a,b,c,d]) = a"
    by (rule bit_word_eqI) (auto simp add: from_le32_def bit_simps dest: bit_imp_le_length)
  have 2: "ucast (drop_bit 8 (from_le32 [a,b,c,d])) = b"
    by (rule bit_word_eqI) (auto simp add: from_le32_def bit_simps dest: bit_imp_le_length)
  have 3: "ucast (drop_bit 16 (from_le32 [a,b,c,d])) = c"
    by (rule bit_word_eqI) (auto simp add: from_le32_def bit_simps dest: bit_imp_le_length)
  have 4: "ucast (drop_bit 24 (from_le32 [a,b,c,d])) = d"
    by (rule bit_word_eqI) (auto simp add: from_le32_def bit_simps dest: bit_imp_le_length)
  show ?thesis unfolding le32_def using 1 2 3 4 by simp
qed

lemma le32_from_le32: "length bs = 4 \<Longrightarrow> le32 (from_le32 bs) = bs"
  using list4 [of bs] le32_from_le32_aux by auto

lemma length_le32: "length (le32 w) = 4"
  by (simp add: le32_def)

lemma length_rec_head_bytes: "length (rec_head_bytes r) = 16"
  by (simp add: rec_head_bytes_def length_le32)

lemma length_rec_bytes: "length (rec_bytes r) = 20"
  by (simp add: rec_bytes_def length_rec_head_bytes length_le32)

lemma rec_of_bytes_rec_bytes: "rec_of_bytes (rec_bytes r) = r"
  by (simp add: rec_of_bytes_def rec_bytes_def rec_head_bytes_def length_le32 from_le32_le32)

lemma rec_bytes_rec_of_bytes:
  assumes "length bs = 20"
  shows "rec_bytes (rec_of_bytes bs) = bs"
proof -
  have "rec_bytes (rec_of_bytes bs) =
      take 4 bs @ take 4 (drop 4 bs) @ take 4 (drop 8 bs) @ take 4 (drop 12 bs) @ take 4 (drop 16 bs)"
    using assms by (simp add: rec_of_bytes_def rec_bytes_def rec_head_bytes_def le32_from_le32)
  also have "\<dots> = take 4 bs @ take 4 (drop 4 bs) @ take 4 (drop 8 bs) @ take 8 (drop 12 bs)"
    using assms by (simp add: take_add [of 4 4 "drop 12 bs", simplified])
  also have "\<dots> = take 4 bs @ take 4 (drop 4 bs) @ take 12 (drop 8 bs)"
    using take_add [of 4 8 "drop 8 bs"] by simp
  also have "\<dots> = take 4 bs @ take 16 (drop 4 bs)"
    using take_add [of 4 12 "drop 4 bs"] by simp
  also have "\<dots> = take 20 bs"
    using take_add [of 4 16 bs] by simp
  finally show ?thesis using assms by simp
qed

lemma rec_head_bytes_rec_of_bytes:
  assumes "length bs = 20"
  shows "rec_head_bytes (rec_of_bytes bs) = take 16 bs"
proof -
  have "take 16 (rec_bytes (rec_of_bytes bs)) = rec_head_bytes (rec_of_bytes bs)"
    by (simp add: rec_bytes_def length_rec_head_bytes)
  then show ?thesis using rec_bytes_rec_of_bytes [OF assms] by simp
qed

lemma crc_rec_of_bytes: "crc (rec_of_bytes bs) = from_le32 (take 4 (drop 16 bs))"
  by (simp add: rec_of_bytes_def)

section \<open>CRC-32 tells single-byte changes apart\<close>

lemma xor_right_cancel: "(a::u32) XOR p = b XOR p \<Longrightarrow> a = b"
proof -
  assume "a XOR p = b XOR p"
  then have "(a XOR p) XOR p = (b XOR p) XOR p" by simp
  then show "a = b" by (simp add: xor.assoc)
qed

lemma xor_left_cancel: "(p::u32) XOR a = p XOR b \<Longrightarrow> a = b"
  using xor_right_cancel [of a p b] by (simp add: xor.commute)

lemma crc32_step_alt: "crc32_step c = drop_bit 1 c XOR (if odd c then 0xEDB88320 else 0)"
  by (simp add: crc32_step_def and_one_eq mod_2_eq_odd)

lemma bit31_crc32_step: "bit (crc32_step c) 31 = odd c"
  using bit_imp_le_length [of c 32] by (auto simp add: crc32_step_alt bit_simps)

lemma crc32_step_inj:
  assumes "crc32_step a = crc32_step b"
  shows "a = b"
proof -
  have o: "odd a = odd b" using assms bit31_crc32_step by metis
  have "drop_bit 1 a XOR (if odd a then 0xEDB88320 else 0) =
        drop_bit 1 b XOR (if odd a then 0xEDB88320 else (0::u32))"
    using assms o by (simp add: crc32_step_alt)
  then have d: "drop_bit 1 a = drop_bit 1 b" by (rule xor_right_cancel)
  show ?thesis
  proof (rule bit_word_eqI)
    fix n assume "n < LENGTH(32)"
    show "bit a n = bit b n"
    proof (cases n)
      case 0 then show ?thesis using o by (simp add: bit_0)
    next
      case (Suc m)
      have "bit (drop_bit 1 a) m = bit (drop_bit 1 b) m" using d by simp
      then show ?thesis using Suc by (simp add: bit_drop_bit_eq)
    qed
  qed
qed

lemma crc32_steps_inj: "(crc32_step ^^ k) a = (crc32_step ^^ k) b \<Longrightarrow> a = b"
  by (induction k) (auto dest: crc32_step_inj)

lemma ucast_8_32_inj: "(ucast (a::u8) :: u32) = ucast b \<Longrightarrow> a = b"
proof -
  assume h: "(ucast a :: u32) = ucast b"
  have "(ucast (ucast a :: u32) :: u8) = a" "(ucast (ucast b :: u32) :: u8) = b"
    by (simp_all add: ucast_up_ucast_id is_up)
  then show "a = b" using h by metis
qed

lemma crc32_update_inj_crc: "crc32_update a d = crc32_update b d \<Longrightarrow> a = b"
  unfolding crc32_update_def by (drule crc32_steps_inj) (rule xor_right_cancel)

lemma crc32_update_inj_data: "crc32_update c d = crc32_update c d' \<Longrightarrow> d = d'"
  unfolding crc32_update_def
  by (drule crc32_steps_inj, drule xor_left_cancel, rule ucast_8_32_inj)

lemma foldl_crc32_update_inj:
  "foldl crc32_update a bs = foldl crc32_update b bs \<Longrightarrow> a = b"
  by (induction bs arbitrary: a b) (auto dest: crc32_update_inj_crc)

lemma crc32_span_update:
  assumes "i < length xs" and "b \<noteq> xs ! i"
  shows "crc32_span (xs[i := b]) \<noteq> crc32_span xs"
proof
  assume eq: "crc32_span (xs[i := b]) = crc32_span xs"
  have xs: "xs = take i xs @ xs ! i # drop (Suc i) xs"
    using assms(1) by (simp add: id_take_nth_drop)
  have ys: "xs[i := b] = take i xs @ b # drop (Suc i) xs"
    using assms(1) by (simp add: upd_conv_take_nth_drop)
  define c where "c = foldl crc32_update 0xFFFFFFFF (take i xs)"
  have "foldl crc32_update 0xFFFFFFFF (xs[i := b]) = foldl crc32_update 0xFFFFFFFF xs"
    using eq by (simp add: crc32_span_def)
  then have "foldl crc32_update (crc32_update c b) (drop (Suc i) xs) =
             foldl crc32_update (crc32_update c (xs ! i)) (drop (Suc i) xs)"
    unfolding c_def by (subst (asm) ys, subst (asm) (3) xs) simp
  then have "crc32_update c b = crc32_update c (xs ! i)"
    by (rule foldl_crc32_update_inj)
  then show False using assms(2) crc32_update_inj_data by blast
qed

section \<open>The EEPROM after a save\<close>

lemma write_bytes_apply:
  "write_bytes a bs m x = (if a \<le> x \<and> x < a + length bs then bs ! (x - a) else m x)"
proof (induction bs arbitrary: a m)
  case Nil
  then show ?case by auto
next
  case (Cons b bs)
  have "write_bytes (Suc a) bs (m(a := b)) x =
      (if Suc a \<le> x \<and> x < Suc a + length bs then bs ! (x - Suc a) else (m(a := b)) x)"
    by (rule Cons.IH)
  then show ?case
    by (cases "x = a") (auto simp add: nth_Cons' Suc_diff_le)
qed

lemma read_bytes_write_bytes: "read_bytes a (length bs) (write_bytes a bs m) = bs"
  by (rule nth_equalityI) (simp_all add: read_bytes_def write_bytes_apply)

lemma length_read_bytes: "length (read_bytes a n m) = n"
  by (simp add: read_bytes_def)

section \<open>Save and load\<close>

lemma EEPROM_save:
  "EEPROM (saveCalibrationToEEPROM sl ta s) =
     \<lparr> flash = write_bytes 0 (rec_bytes (saved_record sl ta)) (flash (EEPROM s)),
       shadow = write_bytes 0 (rec_bytes (saved_record sl ta)) (flash (EEPROM s)) \<rparr>"
  by (simp add: saveCalibrationToEEPROM_def Let_def EEPROM_commit_def EEPROM_put_def
      EEPROM_begin_def saved_record_def rec_head_bytes_def)

lemma save_frame:
  "g_per_count (saveCalibrationToEEPROM sl ta s) = g_per_count s"
  "tare_offset (saveCalibrationToEEPROM sl ta s) = tare_offset s"
  "PULSES_PER_REV (saveCalibrationToEEPROM sl ta s) = PULSES_PER_REV s"
  "epoch_base_ms (saveCalibrationToEEPROM sl ta s) = epoch_base_ms s"
  "linebuf (saveCalibrationToEEPROM sl ta s) = linebuf s"
  by (simp_all add: saveCalibrationToEEPROM_def Let_def)

lemma get_after_write:
  "EEPROM_get 0 \<lparr> flash = f, shadow = write_bytes 0 (rec_bytes r) m \<rparr> = r"
  using read_bytes_write_bytes [of 0 "rec_bytes r" m]
  by (simp add: EEPROM_get_def length_rec_bytes rec_of_bytes_rec_bytes)

lemma saved_record_valid:
  "magic (saved_record sl ta) = CAL_MAGIC"
  "version (saved_record sl ta) = CAL_VERSION"
  "slope (saved_record sl ta) = sl"
  "tare (saved_record sl ta) = ta"
  "crc32_span (rec_head_bytes (saved_record sl ta)) = crc (saved_record sl ta)"
  by (simp_all add: saved_record_def rec_head_bytes_def)

lemma load_state:
  "snd (snd (snd (loadCalibrationFromEEPROM sl0 ta0 s))) = s\<lparr>EEPROM := EEPROM_begin (EEPROM s)\<rparr>"
  by (simp add: loadCalibrationFromEEPROM_def Let_def)

lemma load_of_flash:
  assumes "read_bytes 0 20 (flash (EEPROM s)) = rec_bytes r"
  shows "loadCalibrationFromEEPROM sl0 ta0 s =
     (if magic r = CAL_MAGIC \<and> version r = CAL_VERSION \<and> crc32_span (rec_head_bytes r) = crc r
      then (True, slope r, tare r, s\<lparr>EEPROM := EEPROM_begin (EEPROM s)\<rparr>)
      else (False, sl0, ta0, s\<lparr>EEPROM := EEPROM_begin (EEPROM s)\<rparr>))"
  using assms
  by (simp add: loadCalibrationFromEEPROM_def Let_def EEPROM_get_def EEPROM_begin_def
      rec_of_bytes_rec_bytes)

lemma flash_after_save:
  "read_bytes 0 20 (flash (EEPROM (saveCalibrationToEEPROM sl ta s))) = rec_bytes (saved_record sl ta)"
  using read_bytes_write_bytes [of 0 "rec_bytes (saved_record sl ta)" "flash (EEPROM s)"]
  by (simp add: EEPROM_save length_rec_bytes)

lemma begin_after_save:
  "(saveCalibrationToEEPROM sl ta s)\<lparr>EEPROM := EEPROM_begin (EEPROM (saveCalibrationToEEPROM sl ta s))\<rparr>
     = saveCalibrationToEEPROM sl ta s"
  by (simp add: EEPROM_begin_def EEPROM_commit_def EEPROM_put_def saveCalibrationToEEPROM_def
      Let_def)

lemma load_after_save:
  "loadCalibrationFromEEPROM sl0 ta0 (saveCalibrationToEEPROM sl ta s) =
     (True, sl, ta, saveCalibrationToEEPROM sl ta s)"
  by (simp add: load_of_flash [OF flash_after_save] saved_record_valid begin_after_save)

lemma flash_power_cycle: "flash (EEPROM (power_cycle s)) = flash (EEPROM s)"
  by (simp add: power_cycle_def power_on_def)

text \<open>
  C2. For every slope and tare, a save followed by a load succeeds and returns the
  same pair; the flash then holds the 20 bytes of the record with the magic, the
  version and the CRC of the first 16 bytes, and a load after a power cycle returns
  the pair too.
\<close>

theorem save_load_roundtrip:
  "loadCalibrationFromEEPROM sl0 ta0 (saveCalibrationToEEPROM sl ta s) =
     (True, sl, ta, saveCalibrationToEEPROM sl ta s) \<and>
   read_bytes 0 20 (flash (EEPROM (saveCalibrationToEEPROM sl ta s))) =
     rec_bytes (saved_record sl ta) \<and>
   length (rec_bytes (saved_record sl ta)) = 20 \<and>
   fst (loadCalibrationFromEEPROM sl0 ta0 (power_cycle (saveCalibrationToEEPROM sl ta s))) \<and>
   fst (snd (loadCalibrationFromEEPROM sl0 ta0 (power_cycle (saveCalibrationToEEPROM sl ta s)))) = sl \<and>
   fst (snd (snd (loadCalibrationFromEEPROM sl0 ta0 (power_cycle (saveCalibrationToEEPROM sl ta s))))) = ta"
proof -
  have "read_bytes 0 20 (flash (EEPROM (power_cycle (saveCalibrationToEEPROM sl ta s)))) =
      rec_bytes (saved_record sl ta)"
    by (simp add: flash_power_cycle flash_after_save)
  from load_of_flash [OF this] show ?thesis
    by (simp add: load_after_save flash_after_save length_rec_bytes saved_record_valid)
qed

theorem save_load_roundtrip_witness:
  "fst (loadCalibrationFromEEPROM 1 2 (saveCalibrationToEEPROM 0x3B03126F 5 (power_on (\<lambda>a. 0xFF)))) = True \<and>
   fst (snd (loadCalibrationFromEEPROM 1 2 (saveCalibrationToEEPROM 0x3B03126F 5 (power_on (\<lambda>a. 0xFF))))) = 0x3B03126F \<and>
   fst (snd (snd (loadCalibrationFromEEPROM 1 2 (saveCalibrationToEEPROM 0x3B03126F 5 (power_on (\<lambda>a. 0xFF)))))) = 5"
  using save_load_roundtrip [of 1 2 "0x3B03126F" 5 "power_on (\<lambda>a. 0xFF)"]
  by simp

section \<open>Corrupted records\<close>

lemma load_ok_iff:
  "fst (loadCalibrationFromEEPROM sl0 ta0 s) =
     (from_le32 (take 4 (read_bytes 0 20 (flash (EEPROM s)))) = CAL_MAGIC \<and>
      from_le32 (take 4 (drop 4 (read_bytes 0 20 (flash (EEPROM s))))) = CAL_VERSION \<and>
      crc32_span (take 16 (read_bytes 0 20 (flash (EEPROM s)))) =
        from_le32 (take 4 (drop 16 (read_bytes 0 20 (flash (EEPROM s))))))"
proof -
  let ?B = "read_bytes 0 20 (flash (EEPROM s))"
  have len: "length ?B = 20" by (simp add: length_read_bytes)
  have "?B = rec_bytes (rec_of_bytes ?B)" using rec_bytes_rec_of_bytes [OF len] by simp
  from load_of_flash [OF this] show ?thesis
    by (simp add: rec_head_bytes_rec_of_bytes [OF len] crc_rec_of_bytes)
       (simp add: rec_of_bytes_def)
qed

lemma read_bytes_fun_upd:
  "i < n \<Longrightarrow> read_bytes 0 n (f(i := b)) = (read_bytes 0 n f)[i := b]"
  by (rule nth_equalityI) (auto simp add: read_bytes_def nth_list_update)

lemma flash_flip: "flash (EEPROM (flip_flash_byte i b s)) = (flash (EEPROM s))(i := b)"
  by (simp add: flip_flash_byte_def)

lemma from_le32_inj:
  assumes "length xs = 4" "length ys = 4" "from_le32 xs = from_le32 ys"
  shows "xs = ys"
  using assms le32_from_le32 by metis

lemma flip_rejected:
  assumes ok: "fst (loadCalibrationFromEEPROM x y s)"
    and i: "i < 20" and b: "b \<noteq> flash (EEPROM s) i"
  shows "\<not> fst (loadCalibrationFromEEPROM sl0 ta0 (flip_flash_byte i b s))"
proof -
  define B where "B = read_bytes 0 20 (flash (EEPROM s))"
  have len: "length B = 20" by (simp add: B_def length_read_bytes)
  have Bi: "B ! i = flash (EEPROM s) i" using i by (simp add: B_def read_bytes_def)
  have B': "read_bytes 0 20 (flash (EEPROM (flip_flash_byte i b s))) = B[i := b]"
    using i by (simp add: flash_flip read_bytes_fun_upd B_def)
  have crc_ok: "crc32_span (take 16 B) = from_le32 (take 4 (drop 16 B))"
    using ok by (simp add: load_ok_iff B_def)
  have "crc32_span (take 16 (B[i := b])) \<noteq> from_le32 (take 4 (drop 16 (B[i := b])))"
  proof (cases "i < 16")
    case True
    have "take 16 (B[i := b]) = (take 16 B)[i := b]" using True by (simp add: take_update_swap)
    moreover have "crc32_span ((take 16 B)[i := b]) \<noteq> crc32_span (take 16 B)"
      using True len b Bi by (intro crc32_span_update) simp_all
    moreover have "drop 16 (B[i := b]) = drop 16 B" using True by simp
    ultimately show ?thesis using crc_ok by simp
  next
    case False
    then have i16: "16 \<le> i" by simp
    have h: "take 16 (B[i := b]) = take 16 B" using i16 by simp
    have t: "take 4 (drop 16 (B[i := b])) = (take 4 (drop 16 B))[i - 16 := b]"
      using i16 i by (simp add: drop_update_swap take_update_swap)
    have "(take 4 (drop 16 B))[i - 16 := b] \<noteq> take 4 (drop 16 B)"
    proof
      assume e: "(take 4 (drop 16 B))[i - 16 := b] = take 4 (drop 16 B)"
      have "((take 4 (drop 16 B))[i - 16 := b]) ! (i - 16) = b"
        using i i16 len by simp
      moreover have "(take 4 (drop 16 B)) ! (i - 16) = B ! i"
        using i i16 len by simp
      ultimately show False using e b Bi by simp
    qed
    then have "from_le32 ((take 4 (drop 16 B))[i - 16 := b]) \<noteq> from_le32 (take 4 (drop 16 B))"
      using from_le32_inj [of "(take 4 (drop 16 B))[i - 16 := b]" "take 4 (drop 16 B)"] len
      by auto
    then show ?thesis using h t crc_ok by simp
  qed
  then show ?thesis by (simp add: load_ok_iff B')
qed

lemma load_frame:
  "g_per_count (snd (snd (snd (loadCalibrationFromEEPROM sl0 ta0 s)))) = g_per_count s"
  "tare_offset (snd (snd (snd (loadCalibrationFromEEPROM sl0 ta0 s)))) = tare_offset s"
  "flash (EEPROM (snd (snd (snd (loadCalibrationFromEEPROM sl0 ta0 s))))) = flash (EEPROM s)"
  by (simp_all add: load_state EEPROM_begin_def)

lemma load_fail_outputs:
  "\<not> fst (loadCalibrationFromEEPROM sl0 ta0 s) \<Longrightarrow>
     fst (snd (loadCalibrationFromEEPROM sl0 ta0 s)) = sl0 \<and>
     fst (snd (snd (loadCalibrationFromEEPROM sl0 ta0 s))) = ta0"
  by (auto simp add: loadCalibrationFromEEPROM_def Let_def split: if_splits)

text \<open>
  C3. When the stored record is valid (in particular after a save), replacing any one
  of its 20 bytes by a different value makes the load report invalid. A load that
  reports invalid leaves the caller's two variables as they were, and no load changes
  the live calibration or the flash.
\<close>

theorem load_rejects_corruption:
  "(fst (loadCalibrationFromEEPROM x y s) \<and> i < 20 \<and> b \<noteq> flash (EEPROM s) i \<longrightarrow>
      \<not> fst (loadCalibrationFromEEPROM sl0 ta0 (flip_flash_byte i b s))) \<and>
   (i < 20 \<and> b \<noteq> flash (EEPROM (saveCalibrationToEEPROM sl ta s)) i \<longrightarrow>
      \<not> fst (loadCalibrationFromEEPROM sl0 ta0 (flip_flash_byte i b (saveCalibrationToEEPROM sl ta s)))) \<and>
   (\<not> fst (loadCalibrationFromEEPROM sl0 ta0 s) \<longrightarrow>
      fst (snd (loadCalibrationFromEEPROM sl0 ta0 s)) = sl0 \<and>
      fst (snd (snd (loadCalibrationFromEEPROM sl0 ta0 s))) = ta0) \<and>
   g_per_count (snd (snd (snd (loadCalibrationFromEEPROM sl0 ta0 s)))) = g_per_count s \<and>
   tare_offset (snd (snd (snd (loadCalibrationFromEEPROM sl0 ta0 s)))) = tare_offset s \<and>
   flash (EEPROM (snd (snd (snd (loadCalibrationFromEEPROM sl0 ta0 s))))) = flash (EEPROM s)"
proof -
  have "fst (loadCalibrationFromEEPROM x y (saveCalibrationToEEPROM sl ta s))"
    by (simp add: load_after_save)
  then show ?thesis
    using flip_rejected [of x y s i b sl0 ta0]
      flip_rejected [of x y "saveCalibrationToEEPROM sl ta s" i b sl0 ta0]
      load_fail_outputs [of sl0 ta0 s]
    by (simp add: load_frame)
qed

theorem load_rejects_corruption_witness:
  "\<not> fst (loadCalibrationFromEEPROM 1 2
       (flip_flash_byte 9 0 (saveCalibrationToEEPROM 0x3B03126F 5 (power_on (\<lambda>a. 0xFF))))) \<and>
   \<not> fst (loadCalibrationFromEEPROM 1 2
       (flip_flash_byte 0 0 (saveCalibrationToEEPROM 0x3B03126F 5 (power_on (\<lambda>a. 0xFF))))) \<and>
   fst (snd (loadCalibrationFromEEPROM 1 2
       (flip_flash_byte 9 0 (saveCalibrationToEEPROM 0x3B03126F 5 (power_on (\<lambda>a. 0xFF)))))) = 1 \<and>
   fst (snd (snd (loadCalibrationFromEEPROM 1 2
       (flip_flash_byte 9 0 (saveCalibrationToEEPROM 0x3B03126F 5 (power_on (\<lambda>a. 0xFF))))))) = 2"
proof -
  let ?s = "saveCalibrationToEEPROM 0x3B03126F 5 (power_on (\<lambda>a. 0xFF))"
  have b: "(0::u8) \<noteq> flash (EEPROM ?s) 9"
    by (simp add: EEPROM_save write_bytes_apply rec_bytes_def rec_head_bytes_def le32_def
        saved_record_def nth_append)
  have r: "\<not> fst (loadCalibrationFromEEPROM 1 2 (flip_flash_byte 9 0 ?s))"
    using b load_rejects_corruption [of 0 0 "power_on (\<lambda>a. 0xFF)" 9 0 1 2 "0x3B03126F" 5]
    by simp
  have v: "fst (loadCalibrationFromEEPROM 0 0 ?s)" by (simp add: load_after_save)
  have c: "(0::u8) \<noteq> flash (EEPROM ?s) 0"
    by (simp add: EEPROM_save write_bytes_apply rec_bytes_def rec_head_bytes_def le32_def
        saved_record_def CAL_MAGIC_def)
  have r': "\<not> fst (loadCalibrationFromEEPROM 1 2 (flip_flash_byte 0 0 ?s))"
    using v c load_rejects_corruption [of 0 0 ?s 0 0 1 2 0 0, THEN conjunct1]
    by simp
  show ?thesis
    using r r' load_rejects_corruption [of 0 0 "flip_flash_byte 9 0 ?s" 9 0 1 2 0 0]
    by simp
qed

section \<open>Boot\<close>










section \<open>Argument errors\<close>

lemma strtok_blank: "set args \<subseteq> {CHR '' '', CHR 0x09} \<Longrightarrow> strtok args WS = None"
  by (auto simp add: strtok_def WS_def Let_def dropWhile_eq_Nil_conv)

lemma strtok_Nil: "strtok [] ds = None"
  by (simp add: strtok_def)

lemma cmd_settime_missing: "strtok args WS = None \<Longrightarrow>
    cmd_settime ev args s = ([Str (''ERR 30 missing_unix_ms'' @ CRLF)], s)"
  by (simp add: cmd_settime_def)

lemma cmd_setcal_missing: "strtok args WS = None \<Longrightarrow>
    cmd_setcal fp args s = ([Str (''ERR 31 missing_args'' @ CRLF)], s)"
  by (simp add: cmd_setcal_def strtok_Nil)

lemma cmd_setppr_missing: "strtok args WS = None \<Longrightarrow>
    cmd_setppr args s = ([Str (''ERR 32 missing_ppr'' @ CRLF)], s)"
  by (simp add: cmd_setppr_def)

lemma handle_line_bare:
  "handle_line fp ev ''SETTIME'' s = cmd_settime ev [] s"
  "handle_line fp ev ''SETCAL'' s = cmd_setcal fp [] s"
  "handle_line fp ev ''SETPPR'' s = cmd_setppr [] s"
  "handle_line fp ev ''SETPPR 0'' s = cmd_setppr ''0'' s"
  by (simp_all add: handle_line_def strtok_def WS_def toupper_az_def)

lemma strtoul_0: "strtoul ''0'' = 0"
  by (simp add: strtoul_def strtou_def scan_int_def isspace_def isdigit_def dec_value_def)

lemma cmd_setppr_zero: "cmd_setppr ''0'' s = ([Str (''ERR 33 invalid_ppr'' @ CRLF)], s)"
  by (simp add: cmd_setppr_def strtok_def WS_def strtoul_0)

text \<open>
  C7. SETTIME, SETCAL and SETPPR without an argument (nothing, or only blanks, behind
  the command) answer ERR 30, ERR 31 and ERR 32, and SETPPR 0 answers ERR 33; in each
  of these cases the state, with the epoch base, the live calibration, the stored
  record and the pulses per revolution, is returned unchanged.
\<close>

theorem missing_argument_errors:
  "(set args \<subseteq> {CHR '' '', CHR 0x09} \<longrightarrow>
      cmd_settime ev args s = ([Str (''ERR 30 missing_unix_ms'' @ CRLF)], s) \<and>
      cmd_setcal fp args s = ([Str (''ERR 31 missing_args'' @ CRLF)], s) \<and>
      cmd_setppr args s = ([Str (''ERR 32 missing_ppr'' @ CRLF)], s)) \<and>
   handle_line fp ev ''SETTIME'' s = ([Str (''ERR 30 missing_unix_ms'' @ CRLF)], s) \<and>
   handle_line fp ev ''SETCAL'' s = ([Str (''ERR 31 missing_args'' @ CRLF)], s) \<and>
   handle_line fp ev ''SETPPR'' s = ([Str (''ERR 32 missing_ppr'' @ CRLF)], s) \<and>
   handle_line fp ev ''SETPPR 0'' s = ([Str (''ERR 33 invalid_ppr'' @ CRLF)], s)"
  by (simp add: handle_line_bare cmd_setppr_zero strtok_blank strtok_Nil
      cmd_settime_missing cmd_setcal_missing cmd_setppr_missing)

theorem missing_argument_errors_witness:
  "cmd_settime \<lparr>hx_read_blocking = None, millis = 7\<rparr> ''  '' (power_on (\<lambda>a. 0xFF)) =
     ([Str (''ERR 30 missing_unix_ms'' @ CRLF)], power_on (\<lambda>a. 0xFF)) \<and>
   cmd_setppr ''  '' (power_on (\<lambda>a. 0xFF)) =
     ([Str (''ERR 32 missing_ppr'' @ CRLF)], power_on (\<lambda>a. 0xFF))"
  using missing_argument_errors [of "''  ''" "\<lparr>hx_read_blocking = None, millis = 7\<rparr>"
      "power_on (\<lambda>a. 0xFF)"]
  by simp

section \<open>TARE\<close>

lemma handle_line_tare: "handle_line fp ev ''TARE'' s = cmd_tare ev s"
  by (simp add: handle_line_def strtok_def WS_def toupper_az_def)

lemma cmd_tare_ok:
  "hx_read_blocking ev = Some raw \<Longrightarrow>
     cmd_tare ev s = ([Str (''OK TARE'' @ CRLF)],
        saveCalibrationToEEPROM (g_per_count s) raw (s\<lparr>tare_offset := raw\<rparr>))"
  by (simp add: cmd_tare_def Let_def)

lemma cmd_tare_timeout:
  "hx_read_blocking ev = None \<Longrightarrow>
     cmd_tare ev s = ([Str (''ERR 20 HX711_timeout'' @ CRLF)], s)"
  by (simp add: cmd_tare_def)

text \<open>
  C8. When the acquisition delivers a raw count, TARE answers OK TARE, the live tare
  is the raw count, the live slope is as before, and the record of the pair (slope,
  raw) is in flash, so that a load returns that pair. When the acquisition times out,
  TARE answers ERR 20 and the state, with the live calibration and the stored record,
  is unchanged.
\<close>

theorem tare_command:
  "handle_line fp ev ''TARE'' s = cmd_tare ev s \<and>
   (hx_read_blocking ev = Some raw \<longrightarrow>
      fst (cmd_tare ev s) = [Str (''OK TARE'' @ CRLF)] \<and>
      tare_offset (snd (cmd_tare ev s)) = raw \<and>
      g_per_count (snd (cmd_tare ev s)) = g_per_count s \<and>
      snd (cmd_tare ev s) =
        saveCalibrationToEEPROM (g_per_count s) raw (s\<lparr>tare_offset := raw\<rparr>) \<and>
      read_bytes 0 20 (flash (EEPROM (snd (cmd_tare ev s)))) =
        rec_bytes (saved_record (g_per_count s) raw) \<and>
      loadCalibrationFromEEPROM x y (snd (cmd_tare ev s)) =
        (True, g_per_count s, raw, snd (cmd_tare ev s))) \<and>
   (hx_read_blocking ev = None \<longrightarrow>
      cmd_tare ev s = ([Str (''ERR 20 HX711_timeout'' @ CRLF)], s))"
  by (simp add: handle_line_tare cmd_tare_ok cmd_tare_timeout save_frame flash_after_save
      load_after_save)

theorem tare_command_witness:
  "tare_offset (snd (cmd_tare \<lparr>hx_read_blocking = Some 1234, millis = 7\<rparr>
      (power_on (\<lambda>a. 0xFF)))) = 1234 \<and>
   g_per_count (snd (cmd_tare \<lparr>hx_read_blocking = Some 1234, millis = 7\<rparr>
      (power_on (\<lambda>a. 0xFF)))) = DEFAULT_SLOPE \<and>
   fst (loadCalibrationFromEEPROM 0 0 (snd (cmd_tare \<lparr>hx_read_blocking = Some 1234, millis = 7\<rparr>
      (power_on (\<lambda>a. 0xFF))))) = True \<and>
   cmd_tare \<lparr>hx_read_blocking = None, millis = 7\<rparr> (power_on (\<lambda>a. 0xFF)) =
     ([Str (''ERR 20 HX711_timeout'' @ CRLF)], power_on (\<lambda>a. 0xFF))"
proof -
  have g: "g_per_count (power_on (\<lambda>a. 0xFF)) = DEFAULT_SLOPE"
    by (simp add: power_on_def)
  show ?thesis
    using tare_command [of _ "\<lparr>hx_read_blocking = Some 1234, millis = 7\<rparr>"
        "power_on (\<lambda>a. 0xFF)" 1234 0 0, THEN conjunct2]
      tare_command [of _ "\<lparr>hx_read_blocking = None, millis = 7\<rparr>"
        "power_on (\<lambda>a. 0xFF)" 0 0 0, THEN conjunct2]
    by (simp add: g save_frame load_after_save)
qed

section \<open>Timestamps\<close>















section \<open>SETCAL\<close>






















section \<open>Over-long lines\<close>

lemma loop_append:
  "loop fp ev (xs @ ys) s =
     (case loop fp ev xs s of (os, s1) \<Rightarrow>
        (case loop fp ev ys s1 of (os', s2) \<Rightarrow> (os @ os', s2)))"
  by (induction xs arbitrary: s) (auto split: prod.splits)

lemma loop_accumulate:
  "list_all plain cs \<Longrightarrow> length (linebuf s) + length cs \<le> 127 \<Longrightarrow>
     loop fp ev cs s = ([], s\<lparr>linebuf := linebuf s @ cs\<rparr>)"
proof (induction cs arbitrary: s)
  case Nil
  then show ?case by simp
next
  case (Cons c cs)
  have "loop_byte fp ev c s = ([], s\<lparr>linebuf := linebuf s @ [c]\<rparr>)"
    using Cons.prems by (simp add: loop_byte_def plain_def)
  moreover have "loop fp ev cs (s\<lparr>linebuf := linebuf s @ [c]\<rparr>) =
      ([], s\<lparr>linebuf := linebuf s @ [c]\<rparr>\<lparr>linebuf := linebuf (s\<lparr>linebuf := linebuf s @ [c]\<rparr>) @ cs\<rparr>)"
    using Cons.prems by (intro Cons.IH) simp_all
  ultimately show ?case by simp
qed

lemma loop_byte_overflow:
  "plain c \<Longrightarrow> length (linebuf s) = 127 \<Longrightarrow>
     loop_byte fp ev c s = ([Str (''ERR 11 line_too_long'' @ CRLF)], s\<lparr>linebuf := []\<rparr>)"
  by (simp add: loop_byte_def plain_def)

lemma loop_byte_newline:
  "loop_byte fp ev (CHR 0x0A) s =
     (fst (handle_line fp ev (takeWhile (\<lambda>x. x \<noteq> CHR 0x00) (linebuf s)) s),
      (snd (handle_line fp ev (takeWhile (\<lambda>x. x \<noteq> CHR 0x00) (linebuf s)) s))\<lparr>linebuf := []\<rparr>)"
  by (simp add: loop_byte_def split: prod.splits)

text \<open>An over-long line: 128 bytes \<open>xs\<close> and a rest \<open>ys\<close> of at most 127 bytes. The
  buffer is reset at byte 128, and the rest stays in the buffer as the start of the
  next line.\<close>

lemma loop_overlong:
  assumes "linebuf s = []" and "length xs = 128" and "length ys \<le> 127"
    and "list_all plain xs" and "list_all plain ys"
  shows "loop fp ev (xs @ ys) s = ([Str (''ERR 11 line_too_long'' @ CRLF)], s\<lparr>linebuf := ys\<rparr>)"
proof -
  obtain x xs' where xs: "xs = xs' @ [x]" using assms(2) by (cases xs rule: rev_cases) auto
  have l: "length xs' = 127" using assms(2) xs by simp
  have p: "list_all plain xs'" "plain x" using assms(4) xs by simp_all
  have 1: "loop fp ev xs' s = ([], s\<lparr>linebuf := xs'\<rparr>)"
    using loop_accumulate [OF p(1), of s fp ev] assms(1) l by simp
  have 2: "loop_byte fp ev x (s\<lparr>linebuf := xs'\<rparr>) =
      ([Str (''ERR 11 line_too_long'' @ CRLF)], s\<lparr>linebuf := []\<rparr>)"
    using loop_byte_overflow [OF p(2), of "s\<lparr>linebuf := xs'\<rparr>" fp ev] l by simp
  have 3: "loop fp ev ys (s\<lparr>linebuf := []\<rparr>) = ([], s\<lparr>linebuf := ys\<rparr>)"
    using loop_accumulate [OF assms(5), of "s\<lparr>linebuf := []\<rparr>" fp ev] assms(3) by simp
  show ?thesis
    unfolding xs by (simp add: loop_append 1 2 3)
qed

lemma handle_line_unknown_A72:
  "handle_line fp ev (replicate 72 (CHR ''A'') @ ''PING'') s =
     ([Str (''ERR 10 unknown_command'' @ CRLF)], s)"
  by (simp add: handle_line_def strtok_def WS_def toupper_az_def numeral_eq_Suc)

lemma handle_line_resetcal: "handle_line fp ev ''RESETCAL'' s = cmd_resetcal s"
  by (simp add: handle_line_def strtok_def WS_def toupper_az_def)

lemma overlong_then_ping:
  assumes e: "linebuf s = []"
  shows "loop fp ev (replicate 200 (CHR ''A'') @ ''PING'' @ [CHR 0x0A]) s =
     ([Str (''ERR 11 line_too_long'' @ CRLF), Str (''ERR 10 unknown_command'' @ CRLF)], s)"
proof -
  have r: "replicate 200 (CHR ''A'') = replicate 128 (CHR ''A'') @ replicate 72 (CHR ''A'')"
    by (simp add: replicate_add [symmetric])
  have 1: "loop fp ev (replicate 128 (CHR ''A'') @ replicate 72 (CHR ''A'')) s =
      ([Str (''ERR 11 line_too_long'' @ CRLF)], s\<lparr>linebuf := replicate 72 (CHR ''A'')\<rparr>)"
    by (rule loop_overlong) (simp_all add: e list_all_iff plain_def)
  have 2: "loop fp ev ''PING'' (s\<lparr>linebuf := replicate 72 (CHR ''A'')\<rparr>) =
      ([], s\<lparr>linebuf := replicate 72 (CHR ''A'') @ ''PING''\<rparr>)"
    using loop_accumulate [of "''PING''" "s\<lparr>linebuf := replicate 72 (CHR ''A'')\<rparr>" fp ev]
    by (simp add: plain_def)
  have n: "takeWhile (\<lambda>x. x \<noteq> CHR 0x00) (replicate 72 (CHR ''A'') @ ''PING'') =
      replicate 72 (CHR ''A'') @ ''PING''"
    by (simp add: takeWhile_eq_all_conv)
  have 3: "loop fp ev [CHR 0x0A] (s\<lparr>linebuf := replicate 72 (CHR ''A'') @ ''PING''\<rparr>) =
      ([Str (''ERR 10 unknown_command'' @ CRLF)], s)"
    using e by (simp add: loop_byte_newline n handle_line_unknown_A72)
  define tl where "tl = ''PING'' @ [CHR 0x0A]"
  have 4: "loop fp ev tl (s\<lparr>linebuf := replicate 72 (CHR ''A'')\<rparr>) =
      ([Str (''ERR 10 unknown_command'' @ CRLF)], s)"
    unfolding tl_def loop_append 2 prod.case 3 by simp
  have "loop fp ev ((replicate 128 (CHR ''A'') @ replicate 72 (CHR ''A'')) @ tl) s =
      ([Str (''ERR 11 line_too_long'' @ CRLF), Str (''ERR 10 unknown_command'' @ CRLF)], s)"
    unfolding loop_append [of fp ev "replicate 128 (CHR ''A'') @ replicate 72 (CHR ''A'')"] 1
      prod.case 4
    by simp
  then show ?thesis unfolding tl_def r by simp
qed

lemma overlong_suffix_dispatched:
  assumes e: "linebuf s = []"
  shows "loop fp ev (replicate 128 (CHR ''A'') @ ''RESETCAL'' @ [CHR 0x0A]) s =
     ([Str (''ERR 11 line_too_long'' @ CRLF), Str (''OK RESETCAL'' @ CRLF)],
      (resetCalibrationToDefaultsAndPersist (s\<lparr>linebuf := ''RESETCAL''\<rparr>))\<lparr>linebuf := []\<rparr>)"
proof -
  define tl where "tl = ''RESETCAL'' @ [CHR 0x0A]"
  have 1: "loop fp ev (replicate 128 (CHR ''A'') @ ''RESETCAL'') s =
      ([Str (''ERR 11 line_too_long'' @ CRLF)], s\<lparr>linebuf := ''RESETCAL''\<rparr>)"
    by (rule loop_overlong) (simp_all add: e list_all_iff plain_def)
  have 3: "loop fp ev [CHR 0x0A] (s\<lparr>linebuf := ''RESETCAL''\<rparr>) =
      ([Str (''OK RESETCAL'' @ CRLF)],
       (resetCalibrationToDefaultsAndPersist (s\<lparr>linebuf := ''RESETCAL''\<rparr>))\<lparr>linebuf := []\<rparr>)"
    by (simp add: loop_byte_newline handle_line_resetcal cmd_resetcal_def)
  have "loop fp ev ((replicate 128 (CHR ''A'') @ ''RESETCAL'') @ [CHR 0x0A]) s =
     ([Str (''ERR 11 line_too_long'' @ CRLF), Str (''OK RESETCAL'' @ CRLF)],
      (resetCalibrationToDefaultsAndPersist (s\<lparr>linebuf := ''RESETCAL''\<rparr>))\<lparr>linebuf := []\<rparr>)"
    unfolding loop_append [of fp ev "replicate 128 (CHR ''A'') @ ''RESETCAL''"] 1 prod.case 3
    by simp
  then show ?thesis by simp
qed

text \<open>
  C1. The run of the code on the input of the claim: 200 bytes without a terminator,
  then the line PING. The buffer is reset at byte 128 with one ERR 11; bytes 129 to
  200 stay in the buffer, and the terminator of the PING line dispatches them with
  PING appended, which is answered with ERR 10 and not with OK PONG. In the same way
  the end of an over-long line is dispatched as a command of its own: a line of 128
  bytes followed by RESETCAL resets the calibration.
\<close>

theorem overlong_line_run:
  "loop fp ev (replicate 200 (CHR ''A'') @ ''PING'' @ [CHR 0x0A]) (power_on fl) =
     ([Str (''ERR 11 line_too_long'' @ CRLF), Str (''ERR 10 unknown_command'' @ CRLF)],
      power_on fl) \<and>
   fst (loop fp ev (replicate 128 (CHR ''A'') @ ''RESETCAL'' @ [CHR 0x0A]) (power_on fl)) =
     [Str (''ERR 11 line_too_long'' @ CRLF), Str (''OK RESETCAL'' @ CRLF)] \<and>
   fst (loop fp ev (''PING'' @ [CHR 0x0A]) (power_on fl)) = [Str (''OK PONG'' @ CRLF)]"
proof -
  have e: "linebuf (power_on fl) = []" by (simp add: power_on_def)
  have "loop fp ev ''PING'' (power_on fl) = ([], (power_on fl)\<lparr>linebuf := ''PING''\<rparr>)"
    using loop_accumulate [of "''PING''" "power_on fl" fp ev] e by (simp add: plain_def)
  moreover have "handle_line fp ev ''PING'' s = cmd_ping s" for s
    by (simp add: handle_line_def strtok_def WS_def toupper_az_def)
  ultimately have "fst (loop fp ev (''PING'' @ [CHR 0x0A]) (power_on fl)) = [Str (''OK PONG'' @ CRLF)]"
    unfolding loop_append by (simp add: loop_byte_newline cmd_ping_def)
  then show ?thesis
    using overlong_then_ping [OF e, of fp ev] overlong_suffix_dispatched [OF e, of fp ev]
    by simp
qed

section \<open>Rounding to single precision\<close>

lemma rne_close: "\<bar>of_int (rne x) - x\<bar> \<le> 1/2"
proof -
  have "of_int \<lfloor>x\<rfloor> \<le> x" "x < of_int \<lfloor>x\<rfloor> + 1" by linarith+
  then show ?thesis by (auto simp add: rne_def Let_def abs_le_iff)
qed

lemma pow_nat_int: "0 \<le> k \<Longrightarrow> (2::rat) ^ nat k = power_int 2 k"
  by (simp add: power_int_def)

lemma ilog2_bounds:
  assumes "0 < x"
  shows "power_int 2 (ilog2 x) \<le> x" and "x < power_int 2 (ilog2 x + 1)"
proof -
  obtain n d where q: "quotient_of x = (n, d)" by (cases "quotient_of x")
  have d: "0 < d" using quotient_of_denom_pos [OF q] .
  have x: "x = of_int n / of_int d" using quotient_of_div [OF q] .
  have n: "0 < n" using assms d x by (simp add: zero_less_divide_iff)
  define bn where "bn = bitlen n"
  define bd where "bd = bitlen d"
  have bn1: "1 \<le> bn" using n by (simp add: bn_def bitlen_alt_def)
  have bd1: "1 \<le> bd" using d by (simp add: bd_def bitlen_alt_def)
  have "2 ^ nat (bn - 1) \<le> n" "n < 2 ^ nat bn" using bitlen_bounds [OF n] by (simp_all add: bn_def)
  then have "(of_int (2 ^ nat (bn - 1)) :: rat) \<le> of_int n" "(of_int n :: rat) < of_int (2 ^ nat bn)"
    by (simp_all only: of_int_le_iff of_int_less_iff)
  then have n1: "power_int 2 (bn - 1) \<le> (of_int n :: rat)" and n2: "(of_int n :: rat) < power_int 2 bn"
    using bn1 by (simp_all add: pow_nat_int)
  have "2 ^ nat (bd - 1) \<le> d" "d < 2 ^ nat bd" using bitlen_bounds [OF d] by (simp_all add: bd_def)
  then have "(of_int (2 ^ nat (bd - 1)) :: rat) \<le> of_int d" "(of_int d :: rat) < of_int (2 ^ nat bd)"
    by (simp_all only: of_int_le_iff of_int_less_iff)
  then have d1: "power_int 2 (bd - 1) \<le> (of_int d :: rat)" and d2: "(of_int d :: rat) < power_int 2 bd"
    using bd1 by (simp_all add: pow_nat_int)
  have dpos: "(0::rat) < of_int d" using d by simp
  have lo: "power_int 2 (bn - bd - 1) < x"
  proof -
    have "power_int 2 (bn - bd - 1) * (of_int d :: rat) < power_int 2 (bn - bd - 1) * power_int 2 bd"
      using d2 by (simp add: mult_strict_left_mono)
    also have "\<dots> = power_int 2 (bn - 1)"
      by (simp add: power_int_add [symmetric])
    also have "\<dots> \<le> of_int n" by (rule n1)
    finally show ?thesis using dpos by (simp add: x pos_less_divide_eq)
  qed
  have hi: "x < power_int 2 (bn - bd + 1)"
  proof -
    have "(of_int n :: rat) < power_int 2 bn" by (rule n2)
    also have "\<dots> = power_int 2 (bn - bd + 1) * power_int 2 (bd - 1)"
      by (simp add: power_int_add [symmetric])
    also have "\<dots> \<le> power_int 2 (bn - bd + 1) * of_int d"
      using d1 by (simp add: mult_left_mono)
    finally show ?thesis using dpos by (simp add: x pos_divide_less_eq)
  qed
  have e: "ilog2 x = (if power_int 2 (bn - bd) \<le> x then bn - bd else bn - bd - 1)"
    by (simp add: ilog2_def q Let_def bn_def bd_def)
  show "power_int 2 (ilog2 x) \<le> x" using lo by (simp add: e)
  show "x < power_int 2 (ilog2 x + 1)" using hi by (simp add: e not_le)
qed

lemma pow2_exp_less:
  assumes "power_int 2 m \<le> (x::rat)" and "x < power_int 2 n"
  shows "m < n"
proof (rule ccontr)
  assume "\<not> m < n"
  then have "n \<le> m" by simp
  then have "power_int (2::rat) n \<le> power_int 2 m" by (intro power_int_increasing) simp_all
  then show False using assms by simp
qed

lemma uint_word_of_int_32:
  "0 \<le> b \<Longrightarrow> b < 2 ^ 32 \<Longrightarrow> uint (word_of_int b :: 32 word) = b"
  by (simp add: uint_word_of_int take_bit_eq_mod)

lemma f32_fields:
  assumes "0 \<le> f" "f < 2 ^ 23" "0 \<le> q" "q < 255"
  shows "f32_exp (word_of_int (q * 2 ^ 23 + f)) = q"
    and "f32_frac (word_of_int (q * 2 ^ 23 + f)) = f"
    and "\<not> f32_neg (word_of_int (q * 2 ^ 23 + f))"
    and "uint (word_of_int (q * 2 ^ 23 + f) :: 32 word) = q * 2 ^ 23 + f"
proof -
  have b0: "0 \<le> q * 2 ^ 23 + f" using assms by simp
  have "q * 2 ^ 23 \<le> 254 * 2 ^ 23" using assms by simp
  then have b1: "q * 2 ^ 23 + f < 2 ^ 31" using assms by simp
  then have b2: "q * 2 ^ 23 + f < 2 ^ 32" by simp
  show u: "uint (word_of_int (q * 2 ^ 23 + f) :: 32 word) = q * 2 ^ 23 + f"
    using uint_word_of_int_32 [OF b0 b2] .
  have d: "(q * 2 ^ 23 + f) div 2 ^ 23 = q"
    using assms by (intro int_div_pos_eq [where r = f]) simp_all
  have m: "(q * 2 ^ 23 + f) mod 2 ^ 23 = f"
    using assms by (intro int_mod_pos_eq [where q = q]) simp_all
  show "f32_exp (word_of_int (q * 2 ^ 23 + f)) = q"
    unfolding f32_exp_def u d using assms by simp
  show "f32_frac (word_of_int (q * 2 ^ 23 + f)) = f"
    unfolding f32_frac_def u m ..
  show "\<not> f32_neg (word_of_int (q * 2 ^ 23 + f))"
    unfolding f32_neg_def u using b1 by simp
qed

lemma round_pos_normal:
  assumes lo: "power_int 2 (- 126) \<le> x" and hi: "x < power_int 2 127"
  shows "posnorm (round_pos x)"
    and "valof (round_pos x) =
           of_int (rne (x * power_int 2 (23 - ilog2 x))) * power_int 2 (ilog2 x - 23)"
    and "2 ^ 23 \<le> rne (x * power_int 2 (23 - ilog2 x))"
    and "round_pos x =
           word_of_int ((ilog2 x + 126) * 2 ^ 23 + rne (x * power_int 2 (23 - ilog2 x)))"
proof -
  have "(0::rat) < power_int 2 (- 126)" by simp
  then have xpos: "0 < x" using lo by (rule less_le_trans)
  define e where "e = ilog2 x"
  have e1: "power_int 2 e \<le> x" and e2: "x < power_int 2 (e + 1)"
    using ilog2_bounds [OF xpos] by (simp_all add: e_def)
  have "- 126 < e + 1" using lo e2 by (rule pow2_exp_less)
  then have elo: "- 126 \<le> e" by simp
  have ehi: "e < 127" using e1 hi by (rule pow2_exp_less)
  define s :: rat where "s = power_int 2 (23 - e)"
  have spos: "0 < s" by (simp add: s_def)
  define n where "n = rne (x * s)"
  have "power_int 2 e * s \<le> x * s" using e1 spos by (simp add: mult_right_mono)
  then have m1: "2 ^ 23 \<le> x * s" by (simp add: s_def power_int_add [symmetric])
  have "x * s < power_int 2 (e + 1) * s" using e2 spos by (simp add: mult_strict_right_mono)
  then have m2: "x * s < 2 ^ 24" by (simp add: s_def power_int_add [symmetric])
  have c: "\<bar>of_int n - x * s\<bar> \<le> 1/2" unfolding n_def by (rule rne_close)
  have c1: "x * s - 1/2 \<le> of_int n" and c2: "of_int n \<le> x * s + 1/2"
    using c by linarith+
  have "(8388607::rat) < of_int n" using c1 m1 by simp
  then have "8388607 < n" by simp
  then have n1: "2 ^ 23 \<le> n" by simp
  have "(of_int n :: rat) < 16777217" using c2 m2 by simp
  then have "n < 16777217" by simp
  then have n2: "n \<le> 2 ^ 24" by simp
  show "2 ^ 23 \<le> rne (x * power_int 2 (23 - ilog2 x))"
    using n1 by (simp add: n_def s_def e_def)
  define b where "b = (e + 126) * 2 ^ 23 + n"
  have "(e + 126) * 2 ^ 23 \<le> 252 * 2 ^ 23" using ehi by simp
  then have bhi: "b < 255 * 2 ^ 23" using n2 by (simp add: b_def)
  have "0 \<le> (e + 126) * 2 ^ 23" using elo by simp
  then have blo: "2 ^ 23 \<le> b" using n1 by (simp add: b_def)
  have x0: "(x = 0) = False" using xpos by simp
  have mx: "max (ilog2 x) (- 126) = e" using elo by (simp add: e_def)
  have nn: "rne (x * power_int 2 (23 - e)) = n" by (simp add: n_def s_def)
  have nb: "(255 * 2 ^ 23 \<le> b) = False" using bhi by simp
  have "round_pos x =
      (if 255 * 2 ^ 23 \<le> (e + 126) * 2 ^ 23 + n then 0x7F800000
       else word_of_int ((e + 126) * 2 ^ 23 + n))"
    unfolding round_pos_def Let_def mx nn x0 by (simp only: if_False)
  then have r: "round_pos x = word_of_int b"
    unfolding b_def [symmetric] nb by (simp only: if_False)
  show "round_pos x =
      word_of_int ((ilog2 x + 126) * 2 ^ 23 + rne (x * power_int 2 (23 - ilog2 x)))"
    unfolding r b_def n_def s_def e_def ..
  have u: "uint (round_pos x) = b"
    unfolding r using blo bhi by (intro uint_word_of_int_32) simp_all
  show "posnorm (round_pos x)" using blo bhi by (simp add: posnorm_def u)
  have v: "valof (word_of_int b) = of_int n * power_int 2 (e - 23)"
  proof (cases "n = 2 ^ 24")
    case True
    have b': "b = (e + 128) * 2 ^ 23 + 0" by (simp add: b_def True)
    have q: "0 \<le> e + 128" "e + 128 < 255" using elo ehi by simp_all
    note f = f32_fields [OF _ _ q, of 0, folded b']
    have "power_int (2::rat) (e - 22) = power_int 2 (e - 23) * 2"
      using power_int_add [of "2::rat" "e - 23" 1] by simp
    then show ?thesis
      using elo by (simp add: valof_def f32_mag_def f True)
  next
    case False
    define f where "f = n - 2 ^ 23"
    have f0: "0 \<le> f" "f < 2 ^ 23" using n1 n2 False by (simp_all add: f_def)
    have b': "b = (e + 127) * 2 ^ 23 + f" by (simp add: b_def f_def)
    have q: "0 \<le> e + 127" "e + 127 < 255" using elo ehi by simp_all
    note g = f32_fields [OF f0 q, folded b']
    show ?thesis
      using elo by (simp add: valof_def f32_mag_def g f_def)
  qed
  show "valof (round_pos x) =
      of_int (rne (x * power_int 2 (23 - ilog2 x))) * power_int 2 (ilog2 x - 23)"
    using v by (simp add: r n_def s_def e_def)
qed

lemma ilog2_eq:
  assumes "power_int 2 e \<le> x" and "x < power_int 2 (e + 1)"
  shows "ilog2 x = e"
proof -
  have "(0::rat) < power_int 2 e" by simp
  then have xpos: "0 < x" using assms(1) by (rule less_le_trans)
  have "ilog2 x < e + 1" using ilog2_bounds(1) [OF xpos] assms(2) by (rule pow2_exp_less)
  moreover have "e < ilog2 x + 1" using assms(1) ilog2_bounds(2) [OF xpos] by (rule pow2_exp_less)
  ultimately show ?thesis by simp
qed

lemma round_pos_eval:
  assumes "power_int 2 e \<le> x" and "x < power_int 2 (e + 1)" and "- 126 \<le> e" and "e < 127"
  shows "round_pos x = word_of_int ((e + 126) * 2 ^ 23 + rne (x * power_int 2 (23 - e)))"
proof -
  have "power_int (2::rat) (- 126) \<le> power_int 2 e"
    using assms(3) by (intro power_int_increasing) simp_all
  then have lo: "power_int 2 (- 126) \<le> x" using assms(1) by simp
  have "power_int (2::rat) (e + 1) \<le> power_int 2 127"
    using assms(4) by (intro power_int_increasing) simp_all
  then have hi: "x < power_int 2 127" using assms(2) by simp
  show ?thesis
    using round_pos_normal(4) [OF lo hi] by (simp add: ilog2_eq [OF assms(1,2)])
qed

lemma posnorm_fields:
  assumes "posnorm w"
  shows "1 \<le> f32_exp w" and "f32_exp w < 255" and "\<not> f32_neg w" and "0 \<le> f32_frac w"
proof -
  have b: "2 ^ 23 \<le> uint w" "uint w < 255 * 2 ^ 23" using assms by (simp_all add: posnorm_def)
  have "1 \<le> uint w div 2 ^ 23" using b(1) by simp
  moreover have "uint w div 2 ^ 23 < 255" using b(2) by simp
  ultimately show "1 \<le> f32_exp w" "f32_exp w < 255" by (simp_all add: f32_exp_def)
  show "\<not> f32_neg w" using b(2) by (simp add: f32_neg_def)
  show "0 \<le> f32_frac w" by (simp add: f32_frac_def)
qed

lemma posnorm_mag:
  assumes "posnorm w"
  shows "0 < f32_mag w" and "valof w = f32_mag w" and "\<not> is_nan w" and "\<not> is_inf w"
proof -
  note f = posnorm_fields [OF assms]
  have "(0::rat) < of_int (2 ^ 23 + f32_frac w)" using f(4) by simp
  then have "0 < of_int (2 ^ 23 + f32_frac w) * power_int (2::rat) (f32_exp w - 150)"
    by (intro mult_pos_pos) simp_all
  then show "0 < f32_mag w" using f(1) by (simp add: f32_mag_def)
  show "valof w = f32_mag w" using f(3) by (simp add: valof_def)
  show "\<not> is_nan w" "\<not> is_inf w" using f(2) by (simp_all add: is_nan_def is_inf_def)
qed

lemma ieee_div_posnorm:
  assumes "posnorm a" and "posnorm b"
  shows "ieee_div a b = round_pos (valof a / valof b)"
  using posnorm_mag [OF assms(1)] posnorm_mag [OF assms(2)]
    posnorm_fields(3) [OF assms(1)] posnorm_fields(3) [OF assms(2)]
  by (simp add: ieee_div_def with_sign_def)

lemma ieee_mul_posnorm:
  assumes "posnorm a" and "posnorm b"
  shows "ieee_mul a b = round_pos (valof a * valof b)"
  using posnorm_mag [OF assms(1)] posnorm_mag [OF assms(2)]
    posnorm_fields(3) [OF assms(1)] posnorm_fields(3) [OF assms(2)]
  by (simp add: ieee_mul_def with_sign_def)

lemma valof_F_0: "valof F_0 = 0" and not_nan_F_0: "\<not> is_nan F_0"
  by (simp_all add: F_0_def valof_def f32_mag_def f32_exp_def f32_frac_def f32_neg_def is_nan_def)

lemma ieee_le_posnorm_0:
  assumes "posnorm a"
  shows "\<not> ieee_le a F_0"
  using posnorm_mag [OF assms] by (simp add: ieee_le_def valof_F_0)

lemma round_close:
  assumes lo: "power_int 2 (- 126) \<le> x" and hi: "x < power_int 2 127"
  shows "close 1 x (valof (round_pos x))"
proof -
  have "(0::rat) < power_int 2 (- 126)" by simp
  then have xpos: "0 < x" using lo by (rule less_le_trans)
  define e where "e = ilog2 x"
  define n where "n = rne (x * power_int 2 (23 - e))"
  define y where "y = valof (round_pos x)"
  define t :: rat where "t = power_int 2 (e - 23)"
  have y: "y = of_int n * t"
    using round_pos_normal(2) [OF lo hi] by (simp add: y_def n_def e_def t_def)
  have n1: "2 ^ 23 \<le> n" using round_pos_normal(3) [OF lo hi] by (simp add: n_def e_def)
  have e1: "power_int 2 e \<le> x" using ilog2_bounds(1) [OF xpos] by (simp add: e_def)
  have tpos: "0 < t" by (simp add: t_def)
  have inv: "power_int 2 (23 - e) * t = (1::rat)" by (simp add: t_def power_int_add [symmetric])
  have c: "\<bar>of_int n - x * power_int 2 (23 - e)\<bar> \<le> 1/2" unfolding n_def by (rule rne_close)
  have "\<bar>of_int n - x * power_int 2 (23 - e)\<bar> * t \<le> (1/2) * t"
    using c tpos by (intro mult_right_mono) simp_all
  moreover have "\<bar>of_int n - x * power_int 2 (23 - e)\<bar> * t = \<bar>y - x\<bar>"
  proof -
    have "(of_int n - x * power_int 2 (23 - e)) * t = of_int n * t - x * (power_int 2 (23 - e) * t)"
      by (simp add: algebra_simps)
    also have "\<dots> = y - x" by (simp add: inv y)
    finally have "\<bar>(of_int n - x * power_int 2 (23 - e)) * t\<bar> = \<bar>y - x\<bar>" by simp
    then show ?thesis using tpos by (simp add: abs_mult)
  qed
  ultimately have d: "\<bar>y - x\<bar> \<le> t / 2" by simp
  have te: "t * 2 ^ 23 = power_int 2 e"
    using power_int_add [of "2::rat" "e - 23" 23] by (simp add: t_def)
  have xt: "t * 2 ^ 23 \<le> x" using e1 te by simp
  have "t * 2 ^ 23 \<le> t * of_int n" using n1 tpos by (intro mult_left_mono) (simp_all add: of_int_le_iff [of "2 ^ 23" n, where ?'a = rat, simplified])
  then have yt: "t * 2 ^ 23 \<le> y" by (simp add: y mult.commute)
  have ypos: "0 < y" using yt tpos by (intro less_le_trans [OF _ yt]) simp
  have "y \<le> x + t / 2" "x \<le> y + t / 2" using d by linarith+
  moreover have "t / 2 \<le> x / 16777216" using xt by simp
  moreover have "t / 2 \<le> y / 16777216" using yt by simp
  ultimately have "y \<le> x * (16777217 / 16777216)" "x \<le> y * (16777217 / 16777216)"
    by simp_all
  then show ?thesis
    using xpos ypos by (simp add: close_def y_def)
qed

section \<open>Accumulated rounding error\<close>

lemma close_refl: "0 < x \<Longrightarrow> close 0 x x"
  by (simp add: close_def)

lemma close_trans:
  assumes "close j x y" and "close k y z"
  shows "close (j + k) x z"
proof -
  define h :: rat where "h = 16777217 / 16777216"
  have h: "0 \<le> h ^ j" "0 \<le> h ^ k" by (simp_all add: h_def)
  have a: "0 < x" "0 < y" "y \<le> x * h ^ j" "x \<le> y * h ^ j"
    using assms(1) by (simp_all add: close_def h_def)
  have b: "0 < z" "z \<le> y * h ^ k" "y \<le> z * h ^ k"
    using assms(2) by (simp_all add: close_def h_def)
  have "y * h ^ k \<le> (x * h ^ j) * h ^ k" using a(3) h(2) by (rule mult_right_mono)
  then have 1: "z \<le> x * h ^ (j + k)" using b(2) by (simp add: power_add mult.assoc)
  have "y * h ^ j \<le> (z * h ^ k) * h ^ j" using b(3) h(1) by (rule mult_right_mono)
  with a(4) have "x \<le> (z * h ^ k) * h ^ j" by (rule order_trans)
  then have 2: "x \<le> z * h ^ (j + k)" by (simp add: power_add mult_ac)
  show ?thesis using a(1) b(1) 1 2 by (simp add: close_def h_def)
qed

lemma close_sym: "close k x y \<Longrightarrow> close k y x"
  by (simp add: close_def)

lemma close_mult:
  assumes "close k a a'" and "0 < c"
  shows "close k (c * a) (c * a')"
proof -
  define h :: rat where "h = 16777217 / 16777216"
  have a: "0 < a" "0 < a'" "a' \<le> a * h ^ k" "a \<le> a' * h ^ k"
    using assms(1) by (simp_all add: close_def h_def)
  have "c * a' \<le> c * (a * h ^ k)" "c * a \<le> c * (a' * h ^ k)"
    using a(3,4) assms(2) by (simp_all add: mult_left_mono)
  then show ?thesis using a(1,2) assms(2) by (simp add: close_def h_def mult.assoc)
qed

lemma close_inverse:
  assumes "close k b b'"
  shows "close k (1 / b) (1 / b')"
proof -
  define h :: rat where "h = 16777217 / 16777216"
  have b: "0 < b" "0 < b'" "b' \<le> b * h ^ k" "b \<le> b' * h ^ k"
    using assms by (simp_all add: close_def h_def)
  have 1: "1 / b' \<le> (1 / b) * h ^ k"
    using b by (simp add: field_simps)
  have 2: "1 / b \<le> (1 / b') * h ^ k"
    using b by (simp add: field_simps)
  show ?thesis using b(1,2) 1 2 by (simp add: close_def h_def)
qed

lemma close_mult2:
  assumes "close j a a'" and "close k b b'"
  shows "close (j + k) (a * b) (a' * b')"
proof -
  have 1: "close j (b * a) (b * a')" using assms by (intro close_mult) (simp_all add: close_def)
  have 2: "close k (a' * b) (a' * b')" using assms by (intro close_mult) (simp_all add: close_def)
  show ?thesis using close_trans [OF 1 [unfolded mult.commute [of b]] 2] .
qed

lemma close_div:
  assumes "close j a a'" and "close k b b'"
  shows "close (j + k) (a / b) (a' / b')"
  using close_mult2 [OF assms(1) close_inverse [OF assms(2)]] by simp

lemma close_bounds:
  assumes "close k x y" and "k \<le> 6"
  shows "x / 2 \<le> y" and "y \<le> 2 * x"
proof -
  define h :: rat where "h = 16777217 / 16777216"
  have "h ^ k \<le> h ^ 6" using assms(2) by (intro power_increasing) (simp_all add: h_def)
  also have "\<dots> \<le> 2" by (simp add: h_def power_divide)
  finally have h2: "h ^ k \<le> 2" .
  have a: "0 < x" "0 < y" "y \<le> x * h ^ k" "x \<le> y * h ^ k"
    using assms(1) by (simp_all add: close_def h_def)
  have "x * h ^ k \<le> x * 2" using h2 a(1) by (intro mult_left_mono) simp_all
  then show "y \<le> 2 * x" using a(3) by simp
  have "y * h ^ k \<le> y * 2" using h2 a(2) by (intro mult_left_mono) simp_all
  then show "x / 2 \<le> y" using a(4) by simp
qed

lemma round_step:
  assumes c: "close k i x" and k: "k \<le> 5"
    and lo: "power_int 2 (- 125) \<le> i" and hi: "i \<le> power_int 2 125"
  shows "posnorm (round_pos x)" and "close (Suc k) i (valof (round_pos x))"
proof -
  have k6: "k \<le> 6" using k by simp
  note b = close_bounds [OF c k6]
  have "power_int 2 (- 126) \<le> i / 2" using lo by simp
  then have xlo: "power_int 2 (- 126) \<le> x" using b(1) by simp
  have "2 * i < power_int 2 127" using hi by simp
  then have xhi: "x < power_int 2 127" using b(2) by simp
  show "posnorm (round_pos x)" using xlo xhi by (rule round_pos_normal(1))
  show "close (Suc k) i (valof (round_pos x))"
    using close_trans [OF c round_close [OF xlo xhi]] by simp
qed

section \<open>The speed computation\<close>

lemma float_consts:
  "posnorm F_1e6" "valof F_1e6 = 1000000"
  "posnorm F_1" "valof F_1 = 1"
  "posnorm F_60" "valof F_60 = 60"
  by (simp_all add: F_1e6_def F_1_def F_60_def posnorm_def valof_def f32_mag_def f32_exp_def
      f32_frac_def f32_neg_def)

lemma u32_as_rat:
  assumes "(p::u32) \<noteq> 0"
  shows "(1::rat) \<le> of_nat (unat p)" and "(of_nat (unat p) :: rat) \<le> 2 ^ 32"
proof -
  have "unat p \<noteq> 0" using assms by (simp add: unat_eq_0)
  then have "1 \<le> unat p" by simp
  then have "(of_nat 1 :: rat) \<le> of_nat (unat p)" by (simp only: of_nat_le_iff)
  then show "(1::rat) \<le> of_nat (unat p)" by simp
  have "unat p < 2 ^ 32" using unsigned_less [of p] by simp
  then have "(of_nat (unat p) :: rat) < of_nat (2 ^ 32)" by (simp only: of_nat_less_iff)
  then show "(of_nat (unat p) :: rat) \<le> 2 ^ 32" by simp
qed

lemma ieee_of_u32_close:
  assumes "(p::u32) \<noteq> 0"
  shows "posnorm (ieee_of_u32 p)" and "close 1 (of_nat (unat p)) (valof (ieee_of_u32 p))"
proof -
  note b = u32_as_rat [OF assms]
  have pos: "(0::rat) < of_nat (unat p)" using b(1) by simp
  have lo: "power_int 2 (- 125) \<le> (of_nat (unat p) :: rat)" using b(1) by simp
  have hi: "(of_nat (unat p) :: rat) \<le> power_int 2 125" using b(2) by simp
  show "posnorm (ieee_of_u32 p)"
    unfolding ieee_of_u32_def by (rule round_step(1) [OF close_refl [OF pos] _ lo hi]) simp
  show "close 1 (of_nat (unat p)) (valof (ieee_of_u32 p))"
    unfolding ieee_of_u32_def
    using round_step(2) [OF close_refl [OF pos] _ lo hi] by simp
qed

lemma compute_rpm_ieee:
  assumes p0: "snap_last_period_us sn \<noteq> 0" and q: "(q::u32) \<noteq> 0"
  shows "posnorm (compute_rpm (ieee_single parse) sn q)"
    and "close 6 (60 * 1000000 / (of_nat (unat (snap_last_period_us sn)) * of_nat (unat q)))
           (valof (compute_rpm (ieee_single parse) sn q))"
proof -
  define p where "p = snap_last_period_us sn"
  have p: "p \<noteq> 0" using p0 by (simp add: p_def)
  define P :: rat where "P = of_nat (unat p)"
  define Q :: rat where "Q = of_nat (unat q)"
  have P: "1 \<le> P" "P \<le> 2 ^ 32" using u32_as_rat [OF p] by (simp_all add: P_def)
  have Q: "1 \<le> Q" "Q \<le> 2 ^ 32" using u32_as_rat [OF q] by (simp_all add: Q_def)
  have Ppos: "0 < P" and Qpos: "0 < Q" using P(1) Q(1) by simp_all
  define a1 where "a1 = ieee_of_u32 p"
  define a2 where "a2 = ieee_div a1 F_1e6"
  define a3 where "a3 = ieee_div F_1 a2"
  define a4 where "a4 = ieee_of_u32 q"
  define a5 where "a5 = ieee_div a3 a4"
  define a6 where "a6 = ieee_mul F_60 a5"
  have n1: "posnorm a1" and c1: "close 1 P (valof a1)"
    using ieee_of_u32_close [OF p] by (simp_all add: a1_def P_def)
  \<comment> \<open>period in seconds\<close>
  have e2: "a2 = round_pos (valof a1 / 1000000)"
    using ieee_div_posnorm [OF n1 float_consts(1)] by (simp add: a2_def float_consts)
  have "close (1 + 0) (P / 1000000) (valof a1 / 1000000)"
    by (rule close_div [OF c1 close_refl]) simp
  then have i2: "close 1 (P / 1000000) (valof a1 / 1000000)" by simp
  have l2: "power_int 2 (- 125) \<le> P / 1000000" using P(1) by simp
  have h2: "P / 1000000 \<le> power_int 2 125" using P(2) by simp
  have n2: "posnorm a2" and c2: "close 2 (P / 1000000) (valof a2)"
    using round_step [OF i2 _ l2 h2] by (simp_all add: e2 numeral_2_eq_2)
  \<comment> \<open>its inverse\<close>
  have e3: "a3 = round_pos (1 / valof a2)"
    using ieee_div_posnorm [OF float_consts(3) n2] by (simp add: a3_def float_consts)
  have "close 2 (1 / (P / 1000000)) (1 / valof a2)" by (rule close_inverse [OF c2])
  then have i3: "close 2 (1000000 / P) (1 / valof a2)" by simp
  have "1000000 / 2 ^ 32 \<le> 1000000 / P" using P(2) Ppos by (intro divide_left_mono) simp_all
  then have l3: "power_int 2 (- 125) \<le> 1000000 / P" by simp
  have b3: "1000000 / P \<le> 1000000" using P(1) Ppos by (simp add: pos_divide_le_eq)
  then have h3: "1000000 / P \<le> power_int 2 125" by simp
  have n3: "posnorm a3" and c3: "close 3 (1000000 / P) (valof a3)"
    using round_step [OF i3 _ l3 h3] by (simp_all add: e3 numeral_3_eq_3)
  \<comment> \<open>pulses per revolution\<close>
  have n4: "posnorm a4" and c4: "close 1 Q (valof a4)"
    using ieee_of_u32_close [OF q] by (simp_all add: a4_def Q_def)
  have e5: "a5 = round_pos (valof a3 / valof a4)"
    using ieee_div_posnorm [OF n3 n4] by (simp add: a5_def)
  have "close (3 + 1) (1000000 / P / Q) (valof a3 / valof a4)" by (rule close_div [OF c3 c4])
  then have i5: "close 4 (1000000 / (P * Q)) (valof a3 / valof a4)" by simp
  have PQ: "P * Q \<le> 2 ^ 32 * 2 ^ 32" using P Q by (intro mult_mono) simp_all
  have PQ1: "1 \<le> P * Q" using P(1) Q(1) by (metis mult_mono mult_1 zero_le_one order.trans zero_le_one)
  have PQpos: "0 < P * Q" using Ppos Qpos by simp
  have "1000000 / (2 ^ 32 * 2 ^ 32) \<le> 1000000 / (P * Q)"
    using PQ PQpos by (intro divide_left_mono) simp_all
  then have l5: "power_int 2 (- 125) \<le> 1000000 / (P * Q)" by simp
  have b5: "1000000 / (P * Q) \<le> 1000000" using PQ1 PQpos by (simp add: pos_divide_le_eq)
  then have h5: "1000000 / (P * Q) \<le> power_int 2 125" by simp
  have n5: "posnorm a5" and c5: "close 5 (1000000 / (P * Q)) (valof a5)"
    using round_step [OF i5 _ l5 h5] by (simp_all add: e5 eval_nat_numeral)
  \<comment> \<open>times 60\<close>
  have e6: "a6 = round_pos (60 * valof a5)"
    using ieee_mul_posnorm [OF float_consts(5) n5] by (simp add: a6_def float_consts)
  have "close 5 (60 * (1000000 / (P * Q))) (60 * valof a5)"
    by (rule close_mult [OF c5]) simp
  then have i6: "close 5 (60 * 1000000 / (P * Q)) (60 * valof a5)" by simp
  have l6: "power_int 2 (- 125) \<le> 60 * 1000000 / (P * Q)" using l5 PQpos
    by (intro order_trans [OF l5]) (simp add: divide_right_mono)
  have "60 * 1000000 / (P * Q) \<le> 60 * 1000000" using PQ1 PQpos by (simp add: pos_divide_le_eq)
  then have h6: "60 * 1000000 / (P * Q) \<le> power_int 2 125" by simp
  have n6: "posnorm a6" and c6: "close 6 (60 * 1000000 / (P * Q)) (valof a6)"
    using round_step [OF i6 _ l6 h6] by (simp_all add: e6 eval_nat_numeral)
  have r: "compute_rpm (ieee_single parse) sn q = a6"
    using p q ieee_le_posnorm_0 [OF n2]
    by (simp add: compute_rpm_def ieee_single_def Let_def a6_def a5_def a4_def a3_def a2_def a1_def
        p_def)
  show "posnorm (compute_rpm (ieee_single parse) sn q)"
    using n6 by (simp add: r)
  show "close 6 (60 * 1000000 / (of_nat (unat (snap_last_period_us sn)) * of_nat (unat q)))
           (valof (compute_rpm (ieee_single parse) sn q))"
    using c6 by (simp add: r P_def Q_def p_def)
qed

lemma close_6_error:
  assumes "close 6 r v"
  shows "\<bar>v - r\<bar> \<le> r / 2 ^ 21"
proof -
  define h :: rat where "h = 16777217 / 16777216"
  have h6: "h ^ 6 \<le> 2097153 / 2097152" by (simp add: h_def power_divide)
  have a: "0 < r" "0 < v" "v \<le> r * h ^ 6" "r \<le> v * h ^ 6"
    using assms by (simp_all add: close_def h_def)
  have "r * h ^ 6 \<le> r * (2097153 / 2097152)" using h6 a(1) by (intro mult_left_mono) simp_all
  then have 1: "v \<le> r * (2097153 / 2097152)" using a(3) by simp
  have "v * h ^ 6 \<le> v * (2097153 / 2097152)" using h6 a(2) by (intro mult_left_mono) simp_all
  then have 2: "r \<le> v * (2097153 / 2097152)" using a(4) by simp
  have u: "v - r \<le> r / 2 ^ 21" using 1 by simp
  have "r * (2097152 / 2097153) \<le> v" using 2 by simp
  then have "r - v \<le> r - r * (2097152 / 2097153)" by simp
  also have "\<dots> = r / 2097153" by simp
  also have "\<dots> \<le> r / 2097152" using a(1) by (intro divide_left_mono) simp_all
  finally have l: "r - v \<le> r / 2 ^ 21" by simp
  have "- (v - r) = r - v" by simp
  then have "- (v - r) \<le> r / 2 ^ 21" using l by (simp only:)
  with u show ?thesis by (rule abs_leI)
qed

lemma rne_of_int: "rne (of_int k) = k"
  by (simp add: rne_def)

lemma rne_down:
  assumes "of_int k \<le> x" and "x < of_int k + 1 / 2"
  shows "rne x = k"
proof -
  have "\<lfloor>x\<rfloor> = k" using assms by (intro floor_unique) simp_all
  then show ?thesis using assms by (simp add: rne_def Let_def)
qed

lemma round_10000: "round_pos 10000 = 0x461C4000"
  using round_pos_eval [of 13 10000] rne_of_int [of 10240000] by simp

lemma valof_10000: "valof 0x461C4000 = 10000" and posnorm_10000: "posnorm 0x461C4000"
  by (simp_all add: posnorm_def valof_def f32_mag_def f32_exp_def f32_frac_def f32_neg_def)

lemma round_period: "round_pos (1 / 100) = 0x3C23D70A"
  using round_pos_eval [of "- 7" "1 / 100"] rne_down [of 10737418 "268435456 / 25"] by simp

lemma valof_period: "valof 0x3C23D70A = 5368709 / 536870912" and posnorm_period: "posnorm 0x3C23D70A"
  by (simp_all add: posnorm_def valof_def f32_mag_def f32_exp_def f32_frac_def f32_neg_def)

lemma round_inverse: "round_pos (536870912 / 5368709) = 0x42C80000"
  using round_pos_eval [of 6 "536870912 / 5368709"]
    rne_down [of 13107200 "70368744177664 / 5368709"] by simp

lemma valof_100: "valof 0x42C80000 = 100" and posnorm_100: "posnorm 0x42C80000"
  by (simp_all add: posnorm_def valof_def f32_mag_def f32_exp_def f32_frac_def f32_neg_def)

lemma round_2: "round_pos 2 = 0x40000000"
  using round_pos_eval [of 1 2] rne_of_int [of 8388608] by simp

lemma valof_2: "valof 0x40000000 = 2" and posnorm_2: "posnorm 0x40000000"
  by (simp_all add: posnorm_def valof_def f32_mag_def f32_exp_def f32_frac_def f32_neg_def)

lemma round_50: "round_pos 50 = 0x42480000"
  using round_pos_eval [of 5 50] rne_of_int [of 13107200] by simp

lemma valof_50: "valof 0x42480000 = 50" and posnorm_50: "posnorm 0x42480000"
  by (simp_all add: posnorm_def valof_def f32_mag_def f32_exp_def f32_frac_def f32_neg_def)

lemma round_3000: "round_pos 3000 = 0x453B8000"
  using round_pos_eval [of 11 3000] rne_of_int [of 12288000] by simp

lemma valof_3000: "valof 0x453B8000 = 3000"
  by (simp add: valof_def f32_mag_def f32_exp_def f32_frac_def f32_neg_def)

lemma compute_rpm_10000_2:
  "compute_rpm (ieee_single parse) \<lparr>pulses_total = n, snap_last_period_us = 10000\<rparr> 2 = 0x453B8000"
proof -
  have 1: "ieee_of_u32 10000 = 0x461C4000" by (simp add: ieee_of_u32_def round_10000)
  have 2: "ieee_div 0x461C4000 F_1e6 = 0x3C23D70A"
    using ieee_div_posnorm [OF posnorm_10000 float_consts(1)]
    by (simp add: valof_10000 float_consts round_period)
  have 3: "\<not> ieee_le 0x3C23D70A F_0" by (rule ieee_le_posnorm_0 [OF posnorm_period])
  have 4: "ieee_div F_1 0x3C23D70A = 0x42C80000"
    using ieee_div_posnorm [OF float_consts(3) posnorm_period]
    by (simp add: valof_period float_consts round_inverse)
  have 5: "ieee_of_u32 2 = 0x40000000" by (simp add: ieee_of_u32_def round_2)
  have 6: "ieee_div 0x42C80000 0x40000000 = 0x42480000"
    using ieee_div_posnorm [OF posnorm_100 posnorm_2] by (simp add: valof_100 valof_2 round_50)
  have 7: "ieee_mul F_60 0x42480000 = 0x453B8000"
    using ieee_mul_posnorm [OF float_consts(5) posnorm_50]
    by (simp add: valof_50 float_consts round_3000)
  show ?thesis
    by (simp add: compute_rpm_def ieee_single_def Let_def 1 2 3 4 5 6 7)
qed

lemma compute_rpm_zero:
  "snap_last_period_us sn = 0 \<or> ppr = 0 \<Longrightarrow> compute_rpm fp sn ppr = F_0"
  by (auto simp add: compute_rpm_def)

lemma compute_rpm_error:
  assumes "snap_last_period_us sn \<noteq> 0" and "ppr \<noteq> 0"
  shows "\<bar>valof (compute_rpm (ieee_single parse) sn ppr)
            - 60 / (of_nat (unat (snap_last_period_us sn)) / 1000000 * of_nat (unat ppr))\<bar>
         \<le> 60 / (of_nat (unat (snap_last_period_us sn)) / 1000000 * of_nat (unat ppr)) / 2 ^ 21"
proof -
  have "60 / (of_nat (unat (snap_last_period_us sn)) / 1000000 * of_nat (unat ppr)) =
      (60 * 1000000 / (of_nat (unat (snap_last_period_us sn)) * of_nat (unat ppr)) :: rat)"
    by simp
  then show ?thesis
    using close_6_error [OF compute_rpm_ieee(2) [OF assms, of parse]] by (simp only:)
qed

text \<open>
  C6. \<open>compute_rpm\<close> returns 0 whenever the period is 0 or the pulses per revolution
  are 0, for every float arithmetic. Otherwise, in IEEE-754 single precision with
  rounding to nearest, it returns a positive normal float whose value is
  \<open>60 / (period_in_seconds * ppr)\<close> up to the rounding of its two conversions and
  four operations: the relative error is at most \<open>2^-21\<close>. For a period of 10000 microseconds and 2 pulses per
  revolution the result is the float 3000.
\<close>

theorem compute_rpm_value:
  "(snap_last_period_us sn = 0 \<or> ppr = 0 \<longrightarrow> compute_rpm fp sn ppr = F_0) \<and>
   valof F_0 = 0 \<and>
   (snap_last_period_us sn \<noteq> 0 \<and> ppr \<noteq> 0 \<longrightarrow>
      posnorm (compute_rpm (ieee_single parse) sn ppr) \<and>
      \<bar>valof (compute_rpm (ieee_single parse) sn ppr)
         - 60 / (of_nat (unat (snap_last_period_us sn)) / 1000000 * of_nat (unat ppr))\<bar>
      \<le> 60 / (of_nat (unat (snap_last_period_us sn)) / 1000000 * of_nat (unat ppr)) / 2 ^ 21) \<and>
   compute_rpm (ieee_single parse) \<lparr>pulses_total = n, snap_last_period_us = 10000\<rparr> 2 =
     0x453B8000 \<and>
   valof 0x453B8000 = 3000"
  using compute_rpm_zero [of sn ppr fp] compute_rpm_ieee(1) [of sn ppr parse]
    compute_rpm_error [of sn ppr parse] compute_rpm_10000_2 [of parse n]
  by (simp only: valof_F_0 valof_3000 simp_thms) blast

theorem compute_rpm_value_witness:
  "compute_rpm (ieee_single (\<lambda>t. 0)) \<lparr>pulses_total = 7, snap_last_period_us = 10000\<rparr> 2 =
     0x453B8000 \<and>
   compute_rpm (ieee_single (\<lambda>t. 0)) \<lparr>pulses_total = 7, snap_last_period_us = 0\<rparr> 2 = F_0 \<and>
   compute_rpm (ieee_single (\<lambda>t. 0)) \<lparr>pulses_total = 7, snap_last_period_us = 10000\<rparr> 0 = F_0 \<and>
   posnorm (compute_rpm (ieee_single (\<lambda>t. 0)) \<lparr>pulses_total = 7, snap_last_period_us = 20000\<rparr> 3)"
proof -
  have 1: "compute_rpm (ieee_single (\<lambda>t. 0)) \<lparr>pulses_total = 7, snap_last_period_us = 10000\<rparr> 2 =
     0x453B8000"
    using compute_rpm_value [of "\<lparr>pulses_total = 7, snap_last_period_us = 10000\<rparr>" 2
        "ieee_single (\<lambda>t. 0)" "\<lambda>t. 0" 7]
    by blast
  have 2: "compute_rpm (ieee_single (\<lambda>t. 0)) \<lparr>pulses_total = 7, snap_last_period_us = 0\<rparr> 2 = F_0"
    using compute_rpm_value [of "\<lparr>pulses_total = 7, snap_last_period_us = 0\<rparr>" 2
        "ieee_single (\<lambda>t. 0)" "\<lambda>t. 0" 7]
    by simp
  have 3: "compute_rpm (ieee_single (\<lambda>t. 0)) \<lparr>pulses_total = 7, snap_last_period_us = 10000\<rparr> 0 = F_0"
    using compute_rpm_value [of "\<lparr>pulses_total = 7, snap_last_period_us = 10000\<rparr>" 0
        "ieee_single (\<lambda>t. 0)" "\<lambda>t. 0" 7]
    by simp
  have 4: "posnorm (compute_rpm (ieee_single (\<lambda>t. 0)) \<lparr>pulses_total = 7, snap_last_period_us = 20000\<rparr> 3)"
    using compute_rpm_value [of "\<lparr>pulses_total = 7, snap_last_period_us = 20000\<rparr>" 3
        "ieee_single (\<lambda>t. 0)" "\<lambda>t. 0" 7]
    by simp
  show ?thesis using 1 2 3 4 by simp
qed

section \<open>The default slope\<close>

lemma rne_up:
  assumes "of_int k - 1 / 2 < x" and "x \<le> of_int k" and "x \<noteq> of_int k"
  shows "rne x = k"
proof -
  have "\<lfloor>x\<rfloor> = k - 1" using assms by (intro floor_unique) simp_all
  then show ?thesis using assms by (simp add: rne_def Let_def)
qed

text \<open>\<open>DEFAULT_SLOPE\<close> is the literal \<open>0.0020f\<close>: the single nearest to 2/1000.\<close>

lemma default_slope_value: "round_pos (2 / 1000) = DEFAULT_SLOPE"
  using round_pos_eval [of "- 9" "2 / 1000"] rne_up [of 8589935 "1073741824 / 125"]
  by (simp add: DEFAULT_SLOPE_def)

section \<open>Limits of two statements\<close>



end
